theory Spec2Isabelle
  imports Main "HOL-Library.Word"
begin

unbundle bit_operations_syntax

section \<open>Errors and contexts\<close>

text \<open>
  The SQL types are declared in package \<open>sql\<close>, outside the sources at hand. The analyzer
  rule below only asks whether a type is an array type, so the type lattice is reduced to a
  few scalar types and the array constructor.
\<close>

datatype sql_type = Int64 | Text | Boolean | JSON | Array sql_type

text \<open>
  One datatype for the error values the code returns. \<open>EOF\<close> is \<open>io.EOF\<close>, the end
  signal of every row iterator. The kinds made with \<open>errors.NewKind\<close> keep the arguments
  that tell them apart (the printed node of \<open>ErrInvalidChildrenNumber\<close> is dropped, its two
  numbers are kept). \<open>Errorf\<close> is an error made from a message (\<open>fmt.Errorf\<close>,
  \<open>errors.New\<close>). \<open>Panic\<close> is not an error value of Go but a run-time panic (an index
  out of range, a write to a nil map, a call of a nil function), written as an outcome so
  that no such step is hidden.
\<close>

datatype error =
    EOF
  | ErrInvalidChildrenNumber nat nat
  | ErrMultipleGenerators
  | ErrExplodeNotArray sql_type
  | ErrPidAlreadyUsed "64 word"
  | ErrKeyNotFound
  | ErrNoMemoryAvailable
  | Errorf string
  | Panic string

text \<open>
  Of \<open>sql.Context\<close> the code reads the session id, the process id and the memory manager
  (which hands out the history cache of the grouping iterator and may refuse a \<open>Put\<close>).
  \<open>CancelRef\<close> names the cancellation function the context was derived with, if any.
\<close>

record Context =
  SessionID :: "32 word"
  Pid :: "64 word"
  HasAvailableMemory :: bool
  CancelRef :: "nat option"

section \<open>Plan nodes: GroupBy and the replication statements\<close>

subsection \<open>GroupBy (sql/plan/group\_by.go)\<close>

text \<open>
  \<open>GroupBy\<close> embeds \<open>UnaryNode\<close>, whose only field is the child node. The child is any
  \<open>sql.Node\<close> and the expressions are any \<open>sql.Expression\<close>; both stay type parameters here.
\<close>

record ('x, 'n) GroupBy =
  Child :: 'n
  SelectedExprs :: "'x list"
  GroupByExprs :: "'x list"

definition NewGroupBy :: "'x list \<Rightarrow> 'x list \<Rightarrow> 'n \<Rightarrow> ('x, 'n) GroupBy" where
  "NewGroupBy selectedExprs groupByExprs child =
     \<lparr>Child = child, SelectedExprs = selectedExprs, GroupByExprs = groupByExprs\<rparr>"

text \<open>
  \<open>Children\<close> is inherited from the embedded \<open>UnaryNode\<close> (declared outside these
  sources): the one-element list of the child.
\<close>

definition GroupBy_Children :: "('x, 'n) GroupBy \<Rightarrow> 'n list" where
  "GroupBy_Children p = [Child p]"

definition GroupBy_WithChildren :: "('x, 'n) GroupBy \<Rightarrow> 'n list \<Rightarrow> error + ('x, 'n) GroupBy" where
  "GroupBy_WithChildren p children =
     (if length children \<noteq> 1 then Inl (ErrInvalidChildrenNumber (length children) 1)
      else Inr (NewGroupBy (SelectedExprs p) (GroupByExprs p) (children ! 0)))"

definition GroupBy_Expressions :: "('x, 'n) GroupBy \<Rightarrow> 'x list" where
  "GroupBy_Expressions p = ([] @ SelectedExprs p) @ GroupByExprs p"

definition GroupBy_WithExpressions :: "('x, 'n) GroupBy \<Rightarrow> 'x list \<Rightarrow> error + ('x, 'n) GroupBy" where
  "GroupBy_WithExpressions p exprs =
     (let expected = length (SelectedExprs p) + length (GroupByExprs p) in
      if length exprs \<noteq> expected then Inl (ErrInvalidChildrenNumber (length exprs) expected)
      else
        let agg = map (\<lambda>i. exprs ! i) [0 ..< length (SelectedExprs p)];
            offset = length (SelectedExprs p);
            grouping = map (\<lambda>i. exprs ! (i + offset)) [0 ..< length (GroupByExprs p)]
        in Inr (NewGroupBy agg grouping (Child p)))"

subsection \<open>Replication statements (sql/plan, file of unknown name)\<close>

datatype ReplicationOption = NewReplicationOption string string

datatype ChangeReplicationSource = NewChangeReplicationSource "ReplicationOption list"

datatype StartReplica = NewStartReplica

datatype StopReplica = NewStopReplica

definition ChangeReplicationSource_Resolved :: "ChangeReplicationSource \<Rightarrow> bool" where
  "ChangeReplicationSource_Resolved c = True"

definition ChangeReplicationSource_Children :: "ChangeReplicationSource \<Rightarrow> 'n list" where
  "ChangeReplicationSource_Children c = []"

definition ChangeReplicationSource_RowIter ::
  "ChangeReplicationSource \<Rightarrow> Context \<Rightarrow> 'v list \<Rightarrow> error + 'it" where
  "ChangeReplicationSource_RowIter c ctx row = Inl (Errorf ''replication statements not supported'')"

definition ChangeReplicationSource_WithChildren ::
  "ChangeReplicationSource \<Rightarrow> 'n list \<Rightarrow> error + ChangeReplicationSource" where
  "ChangeReplicationSource_WithChildren c children =
     (if length children \<noteq> 0 then Inl (ErrInvalidChildrenNumber (length children) 0)
      else let newNode = c in Inr newNode)"

definition StartReplica_Resolved :: "StartReplica \<Rightarrow> bool" where
  "StartReplica_Resolved s = True"

definition StartReplica_Children :: "StartReplica \<Rightarrow> 'n list" where
  "StartReplica_Children s = []"

definition StartReplica_RowIter :: "StartReplica \<Rightarrow> Context \<Rightarrow> 'v list \<Rightarrow> error + 'it" where
  "StartReplica_RowIter s ctx row = Inl (Errorf ''replication statements not supported'')"

definition StartReplica_WithChildren :: "StartReplica \<Rightarrow> 'n list \<Rightarrow> error + StartReplica" where
  "StartReplica_WithChildren s children =
     (if length children \<noteq> 0 then Inl (ErrInvalidChildrenNumber (length children) 0)
      else let newNode = s in Inr newNode)"

definition StopReplica_Resolved :: "StopReplica \<Rightarrow> bool" where
  "StopReplica_Resolved s = True"

definition StopReplica_Children :: "StopReplica \<Rightarrow> 'n list" where
  "StopReplica_Children s = []"

definition StopReplica_RowIter :: "StopReplica \<Rightarrow> Context \<Rightarrow> 'v list \<Rightarrow> error + 'it" where
  "StopReplica_RowIter s ctx row = Inl (Errorf ''replication statements not supported'')"

definition StopReplica_WithChildren :: "StopReplica \<Rightarrow> 'n list \<Rightarrow> error + StopReplica" where
  "StopReplica_WithChildren s children =
     (if length children \<noteq> 0 then Inl (ErrInvalidChildrenNumber (length children) 0)
      else let newNode = s in Inr newNode)"

text \<open>
  The four node kinds as one sum, with the interface methods dispatching on the kind.
\<close>

datatype ('x, 'n) Node =
    GroupByNode "('x, 'n) GroupBy"
  | ChangeReplicationSourceNode ChangeReplicationSource
  | StartReplicaNode StartReplica
  | StopReplicaNode StopReplica

fun Children :: "('x, 'n) Node \<Rightarrow> 'n list" where
  "Children (GroupByNode p) = GroupBy_Children p"
| "Children (ChangeReplicationSourceNode c) = ChangeReplicationSource_Children c"
| "Children (StartReplicaNode s) = StartReplica_Children s"
| "Children (StopReplicaNode s) = StopReplica_Children s"

fun WithChildren :: "('x, 'n) Node \<Rightarrow> 'n list \<Rightarrow> error + ('x, 'n) Node" where
  "WithChildren (GroupByNode p) children = map_sum id GroupByNode (GroupBy_WithChildren p children)"
| "WithChildren (ChangeReplicationSourceNode c) children =
     map_sum id ChangeReplicationSourceNode (ChangeReplicationSource_WithChildren c children)"
| "WithChildren (StartReplicaNode s) children =
     map_sum id StartReplicaNode (StartReplica_WithChildren s children)"
| "WithChildren (StopReplicaNode s) children =
     map_sum id StopReplicaNode (StopReplica_WithChildren s children)"

section \<open>The process list (processlist.go)\<close>

subsection \<open>Processes and their progress\<close>

text \<open>
  \<open>sql.Process\<close>, \<open>sql.Progress\<close>, \<open>sql.TableProgress\<close> and
  \<open>sql.PartitionProgress\<close> are declared outside these sources; their fields are the ones
  processlist.go reads and writes. \<open>Done\<close> and \<open>Total\<close> are \<open>int64\<close>.

  Go maps are references. A process holds a reference to its progress map and a table's
  progress holds a reference to its partition map, so a copy of the struct shares the
  map. The maps therefore live in a store, addressed by numbers: \<open>None\<close> is the nil map.
  \<open>Kill\<close> is the cancellation function of the running query, named by a number as well;
  calling it records the number in \<open>cancelled\<close>.
\<close>

datatype ProcessCommand = ProcessCommandQuery | ProcessCommandConnect | ProcessCommandSleep

record Progress =
  Name :: string
  Done :: "64 word"
  Total :: "64 word"

type_synonym PartitionProgress = Progress

record TableProgress = Progress +
  PartitionsProgress :: "nat option"

record Process =
  Connection :: "32 word"
  Command :: ProcessCommand
  Host :: string
  User :: string
  Query :: string
  QueryPid :: "64 word"
  StartedAt :: nat
  Kill :: "nat option"
  Progress :: "nat option"

record Session =
  ID :: "32 word"
  Client_Address :: string
  Client_User :: string

text \<open>
  The process list with the part of the Go heap its operations reach: \<open>procs\<close> and
  \<open>byQueryPid\<close> are the two maps of the struct (the mutex is not modelled: every operation
  holds it from start to end); \<open>tableMaps\<close> and \<open>partitionMaps\<close> give the contents of
  every \<open>map[string]TableProgress\<close> and \<open>map[string]PartitionProgress\<close> object;
  \<open>nextRef\<close> is the next unused reference.
\<close>

record ProcessList =
  procs :: "32 word \<rightharpoonup> Process"
  byQueryPid :: "64 word \<rightharpoonup> 32 word"
  tableMaps :: "nat \<Rightarrow> (string \<rightharpoonup> TableProgress)"
  partitionMaps :: "nat \<Rightarrow> (string \<rightharpoonup> PartitionProgress)"
  nextRef :: nat
  cancelled :: "nat set"

definition NewProcessList :: ProcessList where
  "NewProcessList =
     \<lparr>procs = Map.empty, byQueryPid = Map.empty,
      tableMaps = (\<lambda>_. Map.empty), partitionMaps = (\<lambda>_. Map.empty),
      nextRef = 0, cancelled = {}\<rparr>"

text \<open>\<open>make(map[string]sql.TableProgress)\<close>: a fresh, empty map object.\<close>

definition make_tableMap :: "ProcessList \<Rightarrow> nat \<times> ProcessList" where
  "make_tableMap pl =
     (nextRef pl, pl\<lparr>tableMaps := (tableMaps pl)(nextRef pl := Map.empty), nextRef := Suc (nextRef pl)\<rparr>)"

text \<open>\<open>make(map[string]sql.PartitionProgress)\<close>.\<close>

definition make_partitionMap :: "ProcessList \<Rightarrow> nat \<times> ProcessList" where
  "make_partitionMap pl =
     (nextRef pl,
      pl\<lparr>partitionMaps := (partitionMaps pl)(nextRef pl := Map.empty), nextRef := Suc (nextRef pl)\<rparr>)"

text \<open>
  Modelled from the spec: \<open>sql.NewTableProgress\<close> is not in these sources. Section 3 gives
  a table's progress as its own counters and the per-partition progress; the constructor
  sets the name and the total, leaves \<open>Done\<close> at zero and makes an empty partition map.
\<close>

definition NewTableProgress :: "string \<Rightarrow> 64 word \<Rightarrow> ProcessList \<Rightarrow> TableProgress \<times> ProcessList" where
  "NewTableProgress name total' pl =
     (let (m, pl1) = make_partitionMap pl
      in (\<lparr>Name = name, Done = 0, Total = total', PartitionsProgress = Some m\<rparr>, pl1))"

text \<open>Reading \<open>m[name]\<close>: a nil map has no entry.\<close>

definition tableMap_get :: "ProcessList \<Rightarrow> nat option \<Rightarrow> string \<Rightarrow> TableProgress option" where
  "tableMap_get pl m name = (case m of None \<Rightarrow> None | Some a \<Rightarrow> tableMaps pl a name)"

definition partitionMap_get :: "ProcessList \<Rightarrow> nat option \<Rightarrow> string \<Rightarrow> PartitionProgress option" where
  "partitionMap_get pl m name = (case m of None \<Rightarrow> None | Some a \<Rightarrow> partitionMaps pl a name)"

text \<open>Writing \<open>m[name] = v\<close>: a write to the nil map panics.\<close>

definition tableMap_set ::
  "ProcessList \<Rightarrow> nat option \<Rightarrow> string \<Rightarrow> TableProgress \<Rightarrow> error option \<times> ProcessList" where
  "tableMap_set pl m name v =
     (case m of
        None \<Rightarrow> (Some (Panic ''assignment to entry in nil map''), pl)
      | Some a \<Rightarrow> (None, pl\<lparr>tableMaps := (tableMaps pl)(a := (tableMaps pl a)(name \<mapsto> v))\<rparr>))"

definition partitionMap_set ::
  "ProcessList \<Rightarrow> nat option \<Rightarrow> string \<Rightarrow> PartitionProgress \<Rightarrow> error option \<times> ProcessList" where
  "partitionMap_set pl m name v =
     (case m of
        None \<Rightarrow> (Some (Panic ''assignment to entry in nil map''), pl)
      | Some a \<Rightarrow> (None, pl\<lparr>partitionMaps := (partitionMaps pl)(a := (partitionMaps pl a)(name \<mapsto> v))\<rparr>))"

text \<open>\<open>delete(m, name)\<close>: nothing happens on the nil map.\<close>

definition tableMap_delete :: "ProcessList \<Rightarrow> nat option \<Rightarrow> string \<Rightarrow> ProcessList" where
  "tableMap_delete pl m name =
     (case m of
        None \<Rightarrow> pl
      | Some a \<Rightarrow> pl\<lparr>tableMaps := (tableMaps pl)(a := (tableMaps pl a)(name := None))\<rparr>)"

definition partitionMap_delete :: "ProcessList \<Rightarrow> nat option \<Rightarrow> string \<Rightarrow> ProcessList" where
  "partitionMap_delete pl m name =
     (case m of
        None \<Rightarrow> pl
      | Some a \<Rightarrow> pl\<lparr>partitionMaps := (partitionMaps pl)(a := (partitionMaps pl a)(name := None))\<rparr>)"

subsection \<open>Processes\<close>

text \<open>
  The loop body of \<open>Processes\<close>: \<open>p\<close> is a copy of the struct; a fresh map \<open>progress\<close> is
  made and filled with every entry of \<open>p.Progress\<close>; then \<open>p\<close> itself is appended. The
  fresh map is never stored into \<open>p\<close>, so the appended value still refers to the map of the
  live process.
\<close>

fun Processes_loop :: "Process list \<Rightarrow> Process list \<Rightarrow> ProcessList \<Rightarrow> Process list \<times> ProcessList" where
  "Processes_loop [] result pl = (result, pl)"
| "Processes_loop (proc # rest) result pl =
     (let p = proc;
          (progress, pl1) = make_tableMap pl;
          pl2 = pl1\<lparr>tableMaps := (tableMaps pl1)
                  (progress := (case Progress p of None \<Rightarrow> Map.empty | Some a \<Rightarrow> tableMaps pl1 a))\<rparr>
      in Processes_loop rest (result @ [p]) pl2)"

text \<open>
  Go ranges over \<open>pl.procs\<close> in an unspecified order; the model takes the connections in
  ascending order of their ids.
\<close>

definition Processes :: "ProcessList \<Rightarrow> Process list \<times> ProcessList" where
  "Processes pl =
     Processes_loop (map (\<lambda>id'. the (procs pl id')) (sorted_list_of_set (dom (procs pl)))) [] pl"

subsection \<open>Connections and queries\<close>

text \<open>\<open>time.Now()\<close> is an input of the model (\<open>now\<close>).\<close>

definition AddConnection :: "nat \<Rightarrow> 32 word \<Rightarrow> string \<Rightarrow> ProcessList \<Rightarrow> ProcessList" where
  "AddConnection now id' addr pl =
     pl\<lparr>procs := (procs pl)(id' \<mapsto>
        \<lparr>Connection = id', Command = ProcessCommandConnect, Host = addr,
         User = ''unauthenticated user'', Query = [], QueryPid = 0, StartedAt = now,
         Kill = None, Progress = None\<rparr>)\<rparr>"

definition ConnectionReady :: "nat \<Rightarrow> Session \<Rightarrow> ProcessList \<Rightarrow> ProcessList" where
  "ConnectionReady now sess pl =
     pl\<lparr>procs := (procs pl)(ID sess \<mapsto>
        \<lparr>Connection = ID sess, Command = ProcessCommandSleep, Host = Client_Address sess,
         User = Client_User sess, Query = [], QueryPid = 0, StartedAt = now,
         Kill = None, Progress = None\<rparr>)\<rparr>"

definition call_Kill :: "nat \<Rightarrow> ProcessList \<Rightarrow> ProcessList" where
  "call_Kill k pl = pl\<lparr>cancelled := insert k (cancelled pl)\<rparr>"

definition RemoveConnection :: "32 word \<Rightarrow> ProcessList \<Rightarrow> ProcessList" where
  "RemoveConnection connID pl =
     (case procs pl connID of
        None \<Rightarrow> pl
      | Some p \<Rightarrow>
          let pl1 = (case Kill p of None \<Rightarrow> pl | Some k \<Rightarrow> call_Kill k pl);
              pl2 = pl1\<lparr>byQueryPid := (byQueryPid pl1)(QueryPid p := None)\<rparr>
          in pl2\<lparr>procs := (procs pl2)(connID := None)\<rparr>)"

definition BeginQuery ::
  "nat \<Rightarrow> Context \<Rightarrow> string \<Rightarrow> ProcessList \<Rightarrow> (error + Context) \<times> ProcessList" where
  "BeginQuery now ctx query pl =
     (let id' = SessionID ctx; pid = Pid ctx in
      case procs pl id' of
        None \<Rightarrow> (Inl (Errorf ''internal error: connection not registered with process list''), pl)
      | Some p \<Rightarrow>
          if byQueryPid pl pid \<noteq> None then (Inl (ErrPidAlreadyUsed pid), pl)
          else
            let cancel = nextRef pl;
                pl1 = pl\<lparr>nextRef := Suc (nextRef pl)\<rparr>;
                ctx1 = ctx\<lparr>CancelRef := Some cancel\<rparr>;
                (progress, pl2) = make_tableMap pl1;
                p1 = p\<lparr>Command := ProcessCommandQuery, Query := query, QueryPid := pid,
                       StartedAt := now, Kill := Some cancel, Progress := Some progress\<rparr>;
                pl3 = pl2\<lparr>procs := (procs pl2)(id' \<mapsto> p1)\<rparr>;
                pl4 = pl3\<lparr>byQueryPid := (byQueryPid pl3)(Pid ctx1 \<mapsto> SessionID ctx1)\<rparr>
            in (Inr ctx1, pl4))"

text \<open>
  \<open>EndQuery\<close> calls \<open>p.Kill()\<close> without testing it for nil: the call panics when there is
  no cancellation function, after the first three fields have been written.
\<close>

definition EndQuery :: "nat \<Rightarrow> Context \<Rightarrow> ProcessList \<Rightarrow> error option \<times> ProcessList" where
  "EndQuery now ctx pl =
     (let id' = SessionID ctx; pid = Pid ctx;
          pl1 = pl\<lparr>byQueryPid := (byQueryPid pl)(pid := None)\<rparr>
      in case procs pl1 id' of
           None \<Rightarrow> (None, pl1)
         | Some p \<Rightarrow>
             if QueryPid p = pid then
               let p1 = p\<lparr>Command := ProcessCommandSleep, Query := [], StartedAt := now\<rparr> in
               (case Kill p1 of
                  None \<Rightarrow> (Some (Panic ''call of nil func''), pl1\<lparr>procs := (procs pl1)(id' \<mapsto> p1)\<rparr>)
                | Some k \<Rightarrow>
                    let pl2 = call_Kill k pl1;
                        p2 = p1\<lparr>Kill := None, QueryPid := 0, Progress := None\<rparr>
                    in (None, pl2\<lparr>procs := (procs pl2)(id' \<mapsto> p2)\<rparr>))
             else (None, pl1))"

definition ProcessList_Kill :: "32 word \<Rightarrow> ProcessList \<Rightarrow> ProcessList" where
  "ProcessList_Kill connID pl =
     (case procs pl connID of
        None \<Rightarrow> pl
      | Some p \<Rightarrow> (case Kill p of None \<Rightarrow> pl | Some k \<Rightarrow> call_Kill k pl))"

subsection \<open>Progress updates\<close>

definition UpdateTableProgress ::
  "64 word \<Rightarrow> string \<Rightarrow> 64 word \<Rightarrow> ProcessList \<Rightarrow> error option \<times> ProcessList" where
  "UpdateTableProgress pid name delta pl =
     (case byQueryPid pl pid of
        None \<Rightarrow> (None, pl)
      | Some id' \<Rightarrow>
          (case procs pl id' of
             None \<Rightarrow> (None, pl)
           | Some p \<Rightarrow>
               let (progress, pl1) =
                     (case tableMap_get pl (Progress p) name of
                        Some progress \<Rightarrow> (progress, pl)
                      | None \<Rightarrow> NewTableProgress name (- 1) pl);
                   progress1 = progress\<lparr>Done := Done progress + delta\<rparr>
               in tableMap_set pl1 (Progress p) name progress1))"

definition UpdatePartitionProgress ::
  "64 word \<Rightarrow> string \<Rightarrow> string \<Rightarrow> 64 word \<Rightarrow> ProcessList \<Rightarrow> error option \<times> ProcessList" where
  "UpdatePartitionProgress pid tableName partitionName delta pl =
     (case byQueryPid pl pid of
        None \<Rightarrow> (None, pl)
      | Some id' \<Rightarrow>
          (case procs pl id' of
             None \<Rightarrow> (None, pl)
           | Some p \<Rightarrow>
               (case tableMap_get pl (Progress p) tableName of
                  None \<Rightarrow> (None, pl)
                | Some tablePg \<Rightarrow>
                    let partitionPg =
                          (case partitionMap_get pl (PartitionsProgress tablePg) partitionName of
                             Some partitionPg \<Rightarrow> partitionPg
                           | None \<Rightarrow> \<lparr>Name = partitionName, Done = 0, Total = - 1\<rparr>);
                        partitionPg1 = partitionPg\<lparr>Done := Done partitionPg + delta\<rparr>
                    in partitionMap_set pl (PartitionsProgress tablePg) partitionName partitionPg1)))"

definition AddTableProgress ::
  "64 word \<Rightarrow> string \<Rightarrow> 64 word \<Rightarrow> ProcessList \<Rightarrow> error option \<times> ProcessList" where
  "AddTableProgress pid name total' pl =
     (case byQueryPid pl pid of
        None \<Rightarrow> (None, pl)
      | Some id' \<Rightarrow>
          (case procs pl id' of
             None \<Rightarrow> (None, pl)
           | Some p \<Rightarrow>
               (case tableMap_get pl (Progress p) name of
                  Some pg \<Rightarrow> tableMap_set pl (Progress p) name (pg\<lparr>Total := total'\<rparr>)
                | None \<Rightarrow>
                    let (pg, pl1) = NewTableProgress name total' pl
                    in tableMap_set pl1 (Progress p) name pg)))"

definition AddPartitionProgress ::
  "64 word \<Rightarrow> string \<Rightarrow> string \<Rightarrow> 64 word \<Rightarrow> ProcessList \<Rightarrow> error option \<times> ProcessList" where
  "AddPartitionProgress pid tableName partitionName total' pl =
     (case byQueryPid pl pid of
        None \<Rightarrow> (None, pl)
      | Some id' \<Rightarrow>
          (case procs pl id' of
             None \<Rightarrow> (None, pl)
           | Some p \<Rightarrow>
               (case tableMap_get pl (Progress p) tableName of
                  None \<Rightarrow> (None, pl)
                | Some tablePg \<Rightarrow>
                    (case partitionMap_get pl (PartitionsProgress tablePg) partitionName of
                       Some pg \<Rightarrow>
                         partitionMap_set pl (PartitionsProgress tablePg) partitionName
                           (pg\<lparr>Total := total'\<rparr>)
                     | None \<Rightarrow>
                         partitionMap_set pl (PartitionsProgress tablePg) partitionName
                           \<lparr>Name = partitionName, Done = 0, Total = total'\<rparr>))))"

definition RemoveTableProgress :: "64 word \<Rightarrow> string \<Rightarrow> ProcessList \<Rightarrow> error option \<times> ProcessList" where
  "RemoveTableProgress pid name pl =
     (case byQueryPid pl pid of
        None \<Rightarrow> (None, pl)
      | Some id' \<Rightarrow>
          (case procs pl id' of
             None \<Rightarrow> (None, pl)
           | Some p \<Rightarrow> (None, tableMap_delete pl (Progress p) name)))"

definition RemovePartitionProgress ::
  "64 word \<Rightarrow> string \<Rightarrow> string \<Rightarrow> ProcessList \<Rightarrow> error option \<times> ProcessList" where
  "RemovePartitionProgress pid tableName partitionName pl =
     (case byQueryPid pl pid of
        None \<Rightarrow> (None, pl)
      | Some id' \<Rightarrow>
          (case procs pl id' of
             None \<Rightarrow> (None, pl)
           | Some p \<Rightarrow>
               (case tableMap_get pl (Progress p) tableName of
                  None \<Rightarrow> (None, pl)
                | Some tablePg \<Rightarrow>
                    (None, partitionMap_delete pl (PartitionsProgress tablePg) partitionName))))"

section \<open>The generator rule of the analyzer (sql/analyzer/resolve\_generators.go)\<close>

subsection \<open>Expressions and plan nodes of the rule\<close>

text \<open>
  The rule tells three kinds of expression apart: \<open>*function.Explode\<close>,
  \<open>*expression.Alias\<close> and everything else. It builds \<open>function.NewGenerate\<close>,
  \<open>expression.NewAlias\<close> and \<open>expression.NewGetField\<close> values. Any other expression is
  \<open>Other\<close>, given by its string form, its type and whether it is nullable.
\<close>

datatype Expression =
    Explode Expression
  | function_Generate Expression
  | expression_Alias string Expression
  | GetField nat sql_type string bool
  | Other string sql_type bool

text \<open>
  Modelled from the spec: \<open>sql.IsArray\<close> and the methods \<open>Type\<close>, \<open>IsNullable\<close>,
  \<open>String\<close> and \<open>Name\<close> of these expressions are outside the sources at hand. Section 4.2
  has EXPLODE take an array and fail with explode-not-array otherwise: \<open>IsArray\<close> holds
  of the array types only; a generate, like an alias, has the type and the nullability of
  its child (so the test of the rule looks at the type of the argument of EXPLODE), and an
  EXPLODE has the element type. An alias and a field are named; the others are known by
  their string form.
\<close>

fun IsArray :: "sql_type \<Rightarrow> bool" where
  "IsArray (Array t) = True"
| "IsArray t = False"

fun UnderlyingType :: "sql_type \<Rightarrow> sql_type" where
  "UnderlyingType (Array t) = t"
| "UnderlyingType t = t"

fun Type :: "Expression \<Rightarrow> sql_type" where
  "Type (Explode child) = UnderlyingType (Type child)"
| "Type (function_Generate child) = Type child"
| "Type (expression_Alias name child) = Type child"
| "Type (GetField i t name nullable) = t"
| "Type (Other s t nullable) = t"

fun IsNullable :: "Expression \<Rightarrow> bool" where
  "IsNullable (Explode child) = IsNullable child"
| "IsNullable (function_Generate child) = IsNullable child"
| "IsNullable (expression_Alias name child) = IsNullable child"
| "IsNullable (GetField i t name nullable) = nullable"
| "IsNullable (Other s t nullable) = nullable"

fun String :: "Expression \<Rightarrow> string" where
  "String (Explode child) = ''EXPLODE('' @ String child @ '')''"
| "String (function_Generate child) = ''EXPLODE('' @ String child @ '')''"
| "String (expression_Alias name child) = String child @ '' as '' @ name"
| "String (GetField i t name nullable) = name"
| "String (Other s t nullable) = s"

fun Nameable_Name :: "Expression \<Rightarrow> string option" where
  "Nameable_Name (expression_Alias name child) = Some name"
| "Nameable_Name (GetField i t name nullable) = Some name"
| "Nameable_Name e = None"

record generator =
  idx :: int
  expr :: "Expression option"

fun found_generator :: "Expression \<Rightarrow> Expression option" where
  "found_generator (Explode child) = Some (function_Generate child)"
| "found_generator (expression_Alias name (Explode child)) =
     Some (expression_Alias name (function_Generate child))"
| "found_generator e = None"

fun findGenerator_loop :: "nat \<Rightarrow> Expression list \<Rightarrow> generator \<Rightarrow> error + generator" where
  "findGenerator_loop i [] g = Inr g"
| "findGenerator_loop i (e # exprs) g =
     (case found_generator e of
        None \<Rightarrow> findGenerator_loop (Suc i) exprs g
      | Some ge \<Rightarrow>
          let g1 = g\<lparr>expr := Some ge\<rparr> in
          if idx g1 \<ge> 0 then Inl ErrMultipleGenerators
          else
            let g2 = g1\<lparr>idx := int i\<rparr> in
            if \<not> IsArray (Type ge) then Inl (ErrExplodeNotArray (Type ge))
            else findGenerator_loop (Suc i) exprs g2)"

definition findGenerator :: "Expression list \<Rightarrow> error + generator option" where
  "findGenerator exprs =
     (case findGenerator_loop 0 exprs \<lparr>idx = - 1, expr = None\<rparr> of
        Inl err \<Rightarrow> Inl err
      | Inr g \<Rightarrow> if expr g = None then Inr None else Inr (Some g))"

datatype 'n PlanNode =
    Project "Expression list" "'n PlanNode"
  | Generate "'n PlanNode" Expression
  | OtherNode 'n

fun resolveGenerators_fn :: "'n PlanNode \<Rightarrow> error + 'n PlanNode" where
  "resolveGenerators_fn (Project projection child) =
     (case findGenerator projection of
        Inl err \<Rightarrow> Inl err
      | Inr None \<Rightarrow> Inr (Project projection child)
      | Inr (Some g) \<Rightarrow>
          (case expr g of
             None \<Rightarrow> Inl (Panic ''nil pointer dereference'')
           | Some ge \<Rightarrow>
               if idx g < 0 \<or> int (length projection) \<le> idx g then Inl (Panic ''index out of range'')
               else
                 let projection1 = projection[nat (idx g) := ge];
                     name = (case Nameable_Name ge of Some n \<Rightarrow> n | None \<Rightarrow> String ge)
                 in Inr (Generate (Project projection1 child)
                           (GetField (nat (idx g)) (Type ge) name (IsNullable ge)))))"
| "resolveGenerators_fn n = Inr n"

section \<open>The row iterators of GroupBy (sql/plan/group\_by.go)\<close>

subsection \<open>Rows, expressions and aggregations\<close>

text \<open>
  A \<open>sql.Row\<close> is a slice of \<open>interface{}\<close> values. The values are a type parameter
  \<open>'v\<close>; \<open>None\<close> is the nil value (SQL NULL), and the nil row is the empty list.
\<close>

type_synonym 'v Row = "'v option list"

text \<open>
  group\_by.go tells three kinds of \<open>sql.Expression\<close> apart by a type switch:
  a \<open>sql.Aggregation\<close>, given by its methods \<open>NewBuffer\<close>, \<open>Update\<close> and \<open>Eval\<close>
  (\<open>Update\<close> works on the buffer in place and may fail: the model returns the error, if
  any, and the buffer as it is left); an \<open>*expression.Alias\<close> with its name and child;
  and any other expression, given by its \<open>Eval\<close>.
\<close>

datatype 'v sql_Expression =
    Aggregation "'v Row" "Context \<Rightarrow> 'v Row \<Rightarrow> 'v Row \<Rightarrow> error option \<times> 'v Row"
      "Context \<Rightarrow> 'v Row \<Rightarrow> error + 'v option"
  | Alias string "'v sql_Expression"
  | Scalar "Context \<Rightarrow> 'v Row \<Rightarrow> error + 'v option"

text \<open>
  \<open>Eval\<close> is a method of every expression. The \<open>Eval\<close> of an alias is declared outside
  these sources: it is the \<open>Eval\<close> of its child.
\<close>

fun Eval :: "'v sql_Expression \<Rightarrow> Context \<Rightarrow> 'v Row \<Rightarrow> error + 'v option" where
  "Eval (Aggregation newBuffer update eval) ctx row = eval ctx row"
| "Eval (Alias name child) ctx row = Eval child ctx row"
| "Eval (Scalar eval) ctx row = eval ctx row"

subsection \<open>The grouping key\<close>

text \<open>
  \<open>hash/crc64\<close> of the Go standard library, written out: \<open>crc64.ISO\<close>, the table
  \<open>MakeTable\<close> builds (eight shift steps for each byte value) and the byte loop of
  \<open>Checksum\<close> (\<open>update\<close> started at 0, with the value complemented before and after).
\<close>

definition ISO :: "64 word" where
  "ISO = 0xD800000000000000"

fun MakeTable_bits :: "nat \<Rightarrow> 64 word \<Rightarrow> 64 word \<Rightarrow> 64 word" where
  "MakeTable_bits 0 poly crc = crc"
| "MakeTable_bits (Suc j) poly crc =
     MakeTable_bits j poly (if crc AND 1 = 1 then drop_bit 1 crc XOR poly else drop_bit 1 crc)"

definition MakeTable :: "64 word \<Rightarrow> 8 word \<Rightarrow> 64 word" where
  "MakeTable poly i = MakeTable_bits 8 poly (ucast i)"

fun crc64_update :: "64 word \<Rightarrow> (8 word \<Rightarrow> 64 word) \<Rightarrow> 8 word list \<Rightarrow> 64 word" where
  "crc64_update crc tab [] = crc"
| "crc64_update crc tab (v # p) = crc64_update (tab (ucast crc XOR v) XOR drop_bit 8 crc) tab p"

definition Checksum :: "8 word list \<Rightarrow> (8 word \<Rightarrow> 64 word) \<Rightarrow> 64 word" where
  "Checksum data tab = NOT (crc64_update (NOT 0) tab data)"

definition table :: "8 word \<Rightarrow> 64 word" where
  "table = MakeTable ISO"

text \<open>
  \<open>[]byte(s)\<close>: a Go string is its bytes; \<open>strings.Join\<close> puts the separator between
  the elements.
\<close>

definition bytes :: "string \<Rightarrow> 8 word list" where
  "bytes s = map of_char s"

fun strings_Join :: "string list \<Rightarrow> string \<Rightarrow> string" where
  "strings_Join [] sep = []"
| "strings_Join [a] sep = a"
| "strings_Join (a # b # rest) sep = a @ sep @ strings_Join (b # rest) sep"

text \<open>
  \<open>groupingKey\<close> evaluates the group-by expressions on the row, prints each value with
  \<open>fmt.Sprintf("%#v", v)\<close> and returns the CRC-64 checksum of the printed values joined
  by commas. How a value is printed belongs to the Go library and to the dynamic type of
  the value: \<open>Sprintf\<close> is a parameter.
\<close>

fun groupingKey_loop ::
  "('v option \<Rightarrow> string) \<Rightarrow> Context \<Rightarrow> 'v sql_Expression list \<Rightarrow> 'v Row \<Rightarrow> string list
     \<Rightarrow> error + string list" where
  "groupingKey_loop Sprintf ctx [] row vals = Inr vals"
| "groupingKey_loop Sprintf ctx (e # exprs) row vals =
     (case Eval e ctx row of
        Inl err \<Rightarrow> Inl err
      | Inr v \<Rightarrow> groupingKey_loop Sprintf ctx exprs row (vals @ [Sprintf v]))"

definition groupingKey ::
  "('v option \<Rightarrow> string) \<Rightarrow> Context \<Rightarrow> 'v sql_Expression list \<Rightarrow> 'v Row \<Rightarrow> error + 64 word" where
  "groupingKey Sprintf ctx exprs row =
     (case groupingKey_loop Sprintf ctx exprs row [] of
        Inl err \<Rightarrow> Inl err
      | Inr vals \<Rightarrow> Inr (Checksum (bytes (strings_Join vals '','')) table))"

subsection \<open>Aggregation buffers\<close>

fun fillBuffer :: "'v sql_Expression \<Rightarrow> 'v Row" where
  "fillBuffer (Aggregation newBuffer update eval) = newBuffer"
| "fillBuffer (Alias name child) = fillBuffer child"
| "fillBuffer (Scalar eval) = []"

text \<open>
  \<open>buffers[idx]\<close> is read (for an aggregation) before \<open>Update\<close> is called, and written
  (for any other expression) after \<open>Eval\<close> has returned; an index out of range panics.
\<close>

fun updateBuffer ::
  "Context \<Rightarrow> 'v Row list \<Rightarrow> nat \<Rightarrow> 'v sql_Expression \<Rightarrow> 'v Row \<Rightarrow> error option \<times> 'v Row list" where
  "updateBuffer ctx buffers n (Aggregation newBuffer update eval) row =
     (if n < length buffers then
        (case update ctx (buffers ! n) row of (err, b) \<Rightarrow> (err, buffers[n := b]))
      else (Some (Panic ''index out of range''), buffers))"
| "updateBuffer ctx buffers n (Alias name child) row = updateBuffer ctx buffers n child row"
| "updateBuffer ctx buffers n (Scalar eval) row =
     (case eval ctx row of
        Inl err \<Rightarrow> (Some err, buffers)
      | Inr val \<Rightarrow>
          if n < length buffers then (None, buffers[n := [val]])
          else (Some (Panic ''index out of range''), buffers))"

fun updateBuffers_loop ::
  "Context \<Rightarrow> 'v Row list \<Rightarrow> nat \<Rightarrow> 'v sql_Expression list \<Rightarrow> 'v Row
     \<Rightarrow> error option \<times> 'v Row list" where
  "updateBuffers_loop ctx buffers i [] row = (None, buffers)"
| "updateBuffers_loop ctx buffers i (a # aggregates) row =
     (case updateBuffer ctx buffers i a row of
        (Some err, buffers1) \<Rightarrow> (Some err, buffers1)
      | (None, buffers1) \<Rightarrow> updateBuffers_loop ctx buffers1 (Suc i) aggregates row)"

definition updateBuffers ::
  "Context \<Rightarrow> 'v Row list \<Rightarrow> 'v sql_Expression list \<Rightarrow> 'v Row \<Rightarrow> error option \<times> 'v Row list" where
  "updateBuffers ctx buffers aggregates row = updateBuffers_loop ctx buffers 0 aggregates row"

fun evalBuffer :: "Context \<Rightarrow> 'v sql_Expression \<Rightarrow> 'v Row \<Rightarrow> error + 'v option" where
  "evalBuffer ctx (Aggregation newBuffer update eval) buffer = eval ctx buffer"
| "evalBuffer ctx (Alias name child) buffer = evalBuffer ctx child buffer"
| "evalBuffer ctx (Scalar eval) buffer =
     (if length buffer > 0 then Inr (buffer ! 0) else Inr None)"

fun evalBuffers_loop ::
  "Context \<Rightarrow> 'v Row list \<Rightarrow> nat \<Rightarrow> 'v sql_Expression list \<Rightarrow> 'v Row \<Rightarrow> error + 'v Row" where
  "evalBuffers_loop ctx buffers i [] row = Inr row"
| "evalBuffers_loop ctx buffers i (agg # aggregates) row =
     (if i < length buffers then
        (case evalBuffer ctx agg (buffers ! i) of
           Inl err \<Rightarrow> Inl err
         | Inr val \<Rightarrow> evalBuffers_loop ctx buffers (Suc i) aggregates (row[i := val]))
      else Inl (Panic ''index out of range''))"

definition evalBuffers ::
  "Context \<Rightarrow> 'v Row list \<Rightarrow> 'v sql_Expression list \<Rightarrow> error + 'v Row" where
  "evalBuffers ctx buffers aggregates =
     evalBuffers_loop ctx buffers 0 aggregates (replicate (length aggregates) None)"

subsection \<open>The child iterator\<close>

text \<open>
  The iterators below call \<open>Next\<close> of their child until it returns an error (\<open>io.EOF\<close>
  or another one) and never again. What they can see of a child that lets them return is
  therefore a finite sequence of outcomes, each a row or an error: a call of \<open>Next\<close>
  takes the first outcome off the sequence, and a child that has given all of it returns
  \<open>io.EOF\<close>.
\<close>

type_synonym 'v child_iter = "(error + 'v Row) list"

subsection \<open>The iterator without grouping\<close>

text \<open>
  The fields that \<open>groupByIter\<close> and \<open>groupByGroupingIter\<close> have in common are declared
  once.
\<close>

record 'v iter_fields =
  selectedExprs :: "'v sql_Expression list"
  child :: "'v child_iter"
  ctx :: Context

record 'v groupByIter = "'v iter_fields" +
  buf :: "'v Row list"
  done' :: bool

definition newGroupByIter ::
  "Context \<Rightarrow> 'v sql_Expression list \<Rightarrow> 'v child_iter \<Rightarrow> 'v groupByIter" where
  "newGroupByIter c selectedExprs' child' =
     \<lparr>selectedExprs = selectedExprs', child = child', ctx = c,
      buf = replicate (length selectedExprs') [], done' = False\<rparr>"

text \<open>
  \<open>Next\<close> of \<open>groupByIter\<close>: the flag \<open>done\<close> is set before anything else happens; then
  every buffer is filled, the child is read to its end, every row updating the buffers,
  and the buffers are evaluated.
\<close>

fun fill_loop :: "nat \<Rightarrow> 'v sql_Expression list \<Rightarrow> 'v Row list \<Rightarrow> error option \<times> 'v Row list" where
  "fill_loop j [] b = (None, b)"
| "fill_loop j (a # as) b =
     (if j < length b then fill_loop (Suc j) as (b[j := fillBuffer a])
      else (Some (Panic ''index out of range''), b))"

fun groupByIter_loop ::
  "Context \<Rightarrow> 'v sql_Expression list \<Rightarrow> 'v child_iter \<Rightarrow> 'v Row list
     \<Rightarrow> error option \<times> 'v child_iter \<times> 'v Row list" where
  "groupByIter_loop c sel [] b = (None, [], b)"
| "groupByIter_loop c sel (Inl err # rest) b =
     (if err = EOF then (None, rest, b) else (Some err, rest, b))"
| "groupByIter_loop c sel (Inr row # rest) b =
     (case updateBuffers c b sel row of
        (Some err, b1) \<Rightarrow> (Some err, rest, b1)
      | (None, b1) \<Rightarrow> groupByIter_loop c sel rest b1)"

definition groupByIter_Next :: "'v groupByIter \<Rightarrow> (error + 'v Row) \<times> 'v groupByIter" where
  "groupByIter_Next i =
     (if done' i then (Inl EOF, i)
      else
        let i1 = i\<lparr>done' := True\<rparr> in
        case fill_loop 0 (selectedExprs i1) (buf i1) of
          (Some err, b) \<Rightarrow> (Inl err, i1\<lparr>buf := b\<rparr>)
        | (None, b) \<Rightarrow>
            (case groupByIter_loop (ctx i1) (selectedExprs i1) (child i1) b of
               (Some err, rest, b1) \<Rightarrow> (Inl err, i1\<lparr>child := rest, buf := b1\<rparr>)
             | (None, rest, b1) \<Rightarrow>
                 (evalBuffers (ctx i1) b1 (selectedExprs i1), i1\<lparr>child := rest, buf := b1\<rparr>)))"

subsection \<open>The iterator with grouping\<close>

text \<open>
  Modelled from the spec: the history cache (\<open>sql.KeyValueCache\<close>, made by
  \<open>ctx.Memory.NewHistoryCache\<close>) is not in these sources. Section 4.4 describes it as a
  cache with put and get that maps a grouping-key hash to a buffer vector. \<open>Get\<close> of a
  key that was never put is an error (\<open>compute\<close> relies on it to see a new group); the
  cache belongs to the memory manager, which may refuse a \<open>Put\<close>.
\<close>

type_synonym 'v KeyValueCache = "64 word \<rightharpoonup> 'v Row list"

definition NewHistoryCache :: "'v KeyValueCache" where
  "NewHistoryCache = Map.empty"

definition cache_Put ::
  "Context \<Rightarrow> 'v KeyValueCache \<Rightarrow> 64 word \<Rightarrow> 'v Row list \<Rightarrow> error option \<times> 'v KeyValueCache" where
  "cache_Put c cache k v =
     (if HasAvailableMemory c then (None, cache(k \<mapsto> v)) else (Some ErrNoMemoryAvailable, cache))"

definition cache_Get :: "'v KeyValueCache \<Rightarrow> 64 word \<Rightarrow> error + 'v Row list" where
  "cache_Get cache k = (case cache k of None \<Rightarrow> Inl ErrKeyNotFound | Some v \<Rightarrow> Inr v)"

record 'v groupByGroupingIter = "'v iter_fields" +
  groupByExprs :: "'v sql_Expression list"
  aggregations :: "'v KeyValueCache option"
  keys :: "64 word list"
  pos :: nat

definition newGroupByGroupingIter ::
  "Context \<Rightarrow> 'v sql_Expression list \<Rightarrow> 'v sql_Expression list \<Rightarrow> 'v child_iter
     \<Rightarrow> 'v groupByGroupingIter" where
  "newGroupByGroupingIter c selectedExprs' groupByExprs' child' =
     \<lparr>selectedExprs = selectedExprs', child = child', ctx = c,
      groupByExprs = groupByExprs', aggregations = None, keys = [], pos = 0\<rparr>"

text \<open>
  The loop body of \<open>compute\<close>, first half: when the cache has no buffers under the key,
  fresh buffers are put there and the key is appended to \<open>keys\<close>.
\<close>

definition compute_group ::
  "Context \<Rightarrow> 'v sql_Expression list \<Rightarrow> 'v KeyValueCache \<Rightarrow> 64 word list \<Rightarrow> 64 word
     \<Rightarrow> error option \<times> 'v KeyValueCache \<times> 64 word list" where
  "compute_group c sel aggs ks key =
     (case cache_Get aggs key of
        Inr b \<Rightarrow> (None, aggs, ks)
      | Inl err \<Rightarrow>
          let buf = map fillBuffer sel in
          (case cache_Put c aggs key buf of
             (Some err, aggs1) \<Rightarrow> (Some err, aggs1, ks)
           | (None, aggs1) \<Rightarrow> (None, aggs1, ks @ [key])))"

text \<open>
  The loop of \<open>compute\<close>. The buffers that \<open>Get\<close> returns are the slice the cache holds,
  so what \<open>updateBuffers\<close> writes is written to the cache, also when it fails half-way.
\<close>

fun compute_loop ::
  "('v option \<Rightarrow> string) \<Rightarrow> Context \<Rightarrow> 'v sql_Expression list \<Rightarrow> 'v sql_Expression list
     \<Rightarrow> 'v child_iter \<Rightarrow> 'v KeyValueCache \<Rightarrow> 64 word list
     \<Rightarrow> error option \<times> 'v child_iter \<times> 'v KeyValueCache \<times> 64 word list" where
  "compute_loop Sprintf c sel grp [] aggs ks = (None, [], aggs, ks)"
| "compute_loop Sprintf c sel grp (Inl err # rest) aggs ks =
     (if err = EOF then (None, rest, aggs, ks) else (Some err, rest, aggs, ks))"
| "compute_loop Sprintf c sel grp (Inr row # rest) aggs ks =
     (case groupingKey Sprintf c grp row of
        Inl err \<Rightarrow> (Some err, rest, aggs, ks)
      | Inr key \<Rightarrow>
          (case compute_group c sel aggs ks key of
             (Some err, aggs1, ks1) \<Rightarrow> (Some err, rest, aggs1, ks1)
           | (None, aggs1, ks1) \<Rightarrow>
               (case cache_Get aggs1 key of
                  Inl err \<Rightarrow> (Some err, rest, aggs1, ks1)
                | Inr b \<Rightarrow>
                    (case updateBuffers c b sel row of
                       (Some err, b1) \<Rightarrow> (Some err, rest, aggs1(key \<mapsto> b1), ks1)
                     | (None, b1) \<Rightarrow>
                         compute_loop Sprintf c sel grp rest (aggs1(key \<mapsto> b1)) ks1))))"

definition compute ::
  "('v option \<Rightarrow> string) \<Rightarrow> 'v groupByGroupingIter \<Rightarrow> error option \<times> 'v groupByGroupingIter" where
  "compute Sprintf i =
     (case aggregations i of
        None \<Rightarrow> (Some (Panic ''nil pointer dereference''), i)
      | Some aggs \<Rightarrow>
          (case compute_loop Sprintf (ctx i) (selectedExprs i) (groupByExprs i) (child i) aggs (keys i) of
             (err, rest, aggs1, ks1) \<Rightarrow>
               (err, i\<lparr>child := rest, aggregations := Some aggs1, keys := ks1\<rparr>)))"

definition groupByGroupingIter_Next ::
  "('v option \<Rightarrow> string) \<Rightarrow> 'v groupByGroupingIter
     \<Rightarrow> (error + 'v Row) \<times> 'v groupByGroupingIter" where
  "groupByGroupingIter_Next Sprintf i =
     (case (if aggregations i = None then compute Sprintf (i\<lparr>aggregations := Some NewHistoryCache\<rparr>)
            else (None, i)) of
        (Some err, i1) \<Rightarrow> (Inl err, i1)
      | (None, i1) \<Rightarrow>
          if pos i1 \<ge> length (keys i1) then (Inl EOF, i1)
          else
            (case aggregations i1 of
               None \<Rightarrow> (Inl (Panic ''nil pointer dereference''), i1)
             | Some aggs \<Rightarrow>
                 (case cache_Get aggs (keys i1 ! pos i1) of
                    Inl err \<Rightarrow> (Inl err, i1)
                  | Inr buffers \<Rightarrow>
                      let i2 = i1\<lparr>pos := pos i1 + 1\<rparr>
                      in (evalBuffers (ctx i2) buffers (selectedExprs i2), i2))))"

subsection \<open>RowIter\<close>

text \<open>
  \<open>RowIter\<close> asks the child node for its iterator and wraps it in one of the two
  iterators above; the span iterator around the result only reports to the tracer and is
  left out. The child node's \<open>RowIter\<close> is a parameter.
\<close>

datatype 'v RowIter = GroupByIter "'v groupByIter" | GroupByGroupingIter "'v groupByGroupingIter"

fun Next :: "('v option \<Rightarrow> string) \<Rightarrow> 'v RowIter \<Rightarrow> (error + 'v Row) \<times> 'v RowIter" where
  "Next Sprintf (GroupByIter i) = map_prod id GroupByIter (groupByIter_Next i)"
| "Next Sprintf (GroupByGroupingIter i) =
     map_prod id GroupByGroupingIter (groupByGroupingIter_Next Sprintf i)"

definition GroupBy_RowIter ::
  "('n \<Rightarrow> Context \<Rightarrow> 'v Row \<Rightarrow> error + 'v child_iter) \<Rightarrow> ('v sql_Expression, 'n) GroupBy
     \<Rightarrow> Context \<Rightarrow> 'v Row \<Rightarrow> error + 'v RowIter" where
  "GroupBy_RowIter child_RowIter p c row =
     (case child_RowIter (Child p) c [] of
        Inl err \<Rightarrow> Inl err
      | Inr i \<Rightarrow>
          Inr (if length (GroupByExprs p) = 0 then GroupByIter (newGroupByIter c (SelectedExprs p) i)
               else GroupByGroupingIter
                      (newGroupByGroupingIter c (SelectedExprs p) (GroupByExprs p) i)))"

section \<open>Notions used in the statements\<close>

text \<open>
  A context whose query its connection is running: the process of the session of the
  context holds the pid of the context as its \<open>QueryPid\<close> and has a cancellation
  function. \<open>BeginQuery\<close> leaves the connection in this state for its context; a later
  \<open>BeginQuery\<close>, \<open>EndQuery\<close> or \<open>ConnectionReady\<close> for the same connection ends it.
\<close>

definition query_running :: "Context \<Rightarrow> ProcessList \<Rightarrow> bool" where
  "query_running c pl =
     (case procs pl (SessionID c) of
        None \<Rightarrow> False
      | Some p \<Rightarrow> QueryPid p = Pid c \<and> Kill p \<noteq> None)"

text \<open>\<open>Nexts n\<close> is a caller that calls \<open>Next\<close> \<open>n\<close> times and collects the outcomes.\<close>

fun Nexts :: "('v option \<Rightarrow> string) \<Rightarrow> nat \<Rightarrow> 'v RowIter \<Rightarrow> (error + 'v Row) list \<times> 'v RowIter" where
  "Nexts Sprintf 0 it = ([], it)"
| "Nexts Sprintf (Suc n) it =
     (case Next Sprintf it of
        (r, it1) \<Rightarrow> (case Nexts Sprintf n it1 of (rs, it2) \<Rightarrow> (r # rs, it2)))"

text \<open>
  The distinct elements of a list in the order of their first appearance.
\<close>

fun first_appearance :: "'a list \<Rightarrow> 'a list" where
  "first_appearance [] = []"
| "first_appearance (x # xs) = x # first_appearance (filter (\<lambda>y. y \<noteq> x) xs)"

text \<open>The input rows whose grouping key is \<open>k\<close>, in input order.\<close>

definition group_rows ::
  "('v option \<Rightarrow> string) \<Rightarrow> Context \<Rightarrow> 'v sql_Expression list \<Rightarrow> 'v Row list \<Rightarrow> 64 word
     \<Rightarrow> 'v Row list" where
  "group_rows S c grp rows k = filter (\<lambda>r. groupingKey S c grp r = Inr k) rows"

text \<open>
  The grouping key of a row: the outcomes of the group-by expressions on the row. The
  input rows with a given grouping key, in input order.
\<close>

definition grouping_values ::
  "Context \<Rightarrow> 'v sql_Expression list \<Rightarrow> 'v Row \<Rightarrow> (error + 'v option) list" where
  "grouping_values c grp row = map (\<lambda>e. Eval e c row) grp"

definition rows_of_key ::
  "Context \<Rightarrow> 'v sql_Expression list \<Rightarrow> 'v Row list \<Rightarrow> (error + 'v option) list \<Rightarrow> 'v Row list" where
  "rows_of_key c grp rows vs = filter (\<lambda>r. grouping_values c grp r = vs) rows"

text \<open>
  The reference result for one group: the buffers of the selected expressions, filled
  afresh, updated with the rows of the group in order, then evaluated.
\<close>

fun accumulate ::
  "Context \<Rightarrow> 'v sql_Expression list \<Rightarrow> 'v Row list \<Rightarrow> 'v Row list \<Rightarrow> error option \<times> 'v Row list" where
  "accumulate c sel buffers [] = (None, buffers)"
| "accumulate c sel buffers (row # rows) =
     (case updateBuffers c buffers sel row of
        (Some err, buffers1) \<Rightarrow> (Some err, buffers1)
      | (None, buffers1) \<Rightarrow> accumulate c sel buffers1 rows)"

definition group_row :: "Context \<Rightarrow> 'v sql_Expression list \<Rightarrow> 'v Row list \<Rightarrow> error + 'v Row" where
  "group_row c sel rows =
     (case accumulate c sel (map fillBuffer sel) rows of
        (Some err, buffers) \<Rightarrow> Inl err
      | (None, buffers) \<Rightarrow> evalBuffers c buffers sel)"

text \<open>
  An expression that never reports \<open>io.EOF\<close> as an error of its own (\<open>io.EOF\<close> is
  the end signal of the iterators), and an iterator whose expressions all are such.
\<close>

fun never_EOF :: "'v sql_Expression \<Rightarrow> bool" where
  "never_EOF (Aggregation newBuffer update eval) =
     ((\<forall>c b row. fst (update c b row) \<noteq> Some EOF) \<and> (\<forall>c b. eval c b \<noteq> Inl EOF))"
| "never_EOF (Alias name e) = never_EOF e"
| "never_EOF (Scalar eval) = (\<forall>c row. eval c row \<noteq> Inl EOF)"

fun iter_never_EOF :: "'v RowIter \<Rightarrow> bool" where
  "iter_never_EOF (GroupByIter i) = True"
| "iter_never_EOF (GroupByGroupingIter i) =
     ((\<forall>e \<in> set (selectedExprs i). never_EOF e) \<and> (\<forall>e \<in> set (groupByExprs i). never_EOF e))"

section \<open>Concrete inputs\<close>

text \<open>A session, a query context and the process-list states they lead to.\<close>

definition session1 :: Session where
  "session1 = \<lparr>ID = 1, Client_Address = ''localhost'', Client_User = ''root''\<rparr>"

definition query7 :: Context where
  "query7 = \<lparr>SessionID = 1, Pid = 7, HasAvailableMemory = True, CancelRef = None\<rparr>"

definition ready1 :: ProcessList where
  "ready1 = ConnectionReady 0 session1 NewProcessList"

definition running7 :: ProcessList where
  "running7 = snd (BeginQuery 1 query7 ''select'' ready1)"

text \<open>An integer column, an array column and a table, for the generator rule.\<close>

definition col_a :: Expression where
  "col_a = Other ''a'' Int64 False"

definition col_arr :: Expression where
  "col_arr = Other ''arr'' (Array Int64) True"

definition table_t :: "string PlanNode" where
  "table_t = OtherNode ''t''"

text \<open>
  For the iterators the values are \<open>int64\<close>. \<open>fmt.Sprintf("%#v", v)\<close> prints an
  \<open>int64\<close> in decimal, with a minus sign when negative, and the nil value as \<open><nil>\<close>.
  The expressions are the columns \<open>a\<close> and \<open>b\<close> of a two-column row, the sum of column
  \<open>b\<close> (null over no rows) and the count of rows; the table \<open>t\<close> of scenario S1 has the
  rows (1,10), (1,20), (2,30). The rows \<open>row_A\<close> and \<open>row_B\<close> differ in both columns, and
  \<open>table_AB\<close> is the table of these two rows, grouped by both columns in
  \<open>select_a_b_count\<close>;
  \<open>eof_on_two\<close> is the first column again, but reports \<open>io.EOF\<close> on the value 2.
\<close>

definition digit_char :: "nat \<Rightarrow> char" where
  "digit_char d = ''0123456789'' ! d"

fun FormatUint :: "nat \<Rightarrow> string" where
  "FormatUint n = (if n < 10 then [digit_char n] else FormatUint (n div 10) @ [digit_char (n mod 10)])"

declare FormatUint.simps [simp del]

definition FormatInt :: "int \<Rightarrow> string" where
  "FormatInt i = (if i < 0 then ''-'' @ FormatUint (nat (- i)) else FormatUint (nat i))"

definition Sprintf_int64 :: "64 word option \<Rightarrow> string" where
  "Sprintf_int64 v = (case v of None \<Rightarrow> ''<nil>'' | Some i \<Rightarrow> FormatInt (sint i))"

definition column_a :: "64 word sql_Expression" where
  "column_a =
     Scalar (\<lambda>c row. case row of a # rest \<Rightarrow> Inr a | [] \<Rightarrow> Inl (Errorf ''index out of range''))"

definition column_b :: "64 word sql_Expression" where
  "column_b =
     Scalar (\<lambda>c row. case row of a # b # rest \<Rightarrow> Inr b | _ \<Rightarrow> Inl (Errorf ''index out of range''))"

definition add_null :: "64 word option \<Rightarrow> 64 word option \<Rightarrow> 64 word option" where
  "add_null x y = (case x of None \<Rightarrow> y | Some m \<Rightarrow> (case y of None \<Rightarrow> Some m | Some n \<Rightarrow> Some (m + n)))"

definition sum_b :: "64 word sql_Expression" where
  "sum_b =
     Aggregation [None]
       (\<lambda>c buffer row.
          case row of
            a # b # rest \<Rightarrow> (None, [add_null (case buffer of [] \<Rightarrow> None | s # _ \<Rightarrow> s) b])
          | _ \<Rightarrow> (Some (Errorf ''index out of range''), buffer))
       (\<lambda>c buffer. Inr (case buffer of [] \<Rightarrow> None | s # _ \<Rightarrow> s))"

definition count_rows :: "64 word sql_Expression" where
  "count_rows =
     Aggregation [Some 0]
       (\<lambda>c buffer row. (None, [add_null (case buffer of [] \<Rightarrow> None | s # _ \<Rightarrow> s) (Some 1)]))
       (\<lambda>c buffer. Inr (case buffer of [] \<Rightarrow> None | s # _ \<Rightarrow> s))"

definition rows_t :: "64 word Row list" where
  "rows_t = [[Some 1, Some 10], [Some 1, Some 20], [Some 2, Some 30]]"

definition select_a_sum_b :: "(64 word sql_Expression, string) GroupBy" where
  "select_a_sum_b = \<lparr>Child = ''t'', SelectedExprs = [column_a, sum_b], GroupByExprs = [column_a]\<rparr>"

definition table_rows :: "string \<Rightarrow> Context \<Rightarrow> 64 word Row \<Rightarrow> error + 64 word child_iter" where
  "table_rows n c r = Inr (map Inr rows_t)"

definition row_A :: "64 word Row" where
  "row_A = [Some 400000000000, Some 400000000000]"

definition row_B :: "64 word Row" where
  "row_B = [Some 440000000700, Some 400410000000]"

definition select_a_b_count :: "(64 word sql_Expression, string) GroupBy" where
  "select_a_b_count =
     \<lparr>Child = ''t'', SelectedExprs = [column_a, column_b, count_rows],
      GroupByExprs = [column_a, column_b]\<rparr>"

definition table_AB :: "string \<Rightarrow> Context \<Rightarrow> 64 word Row \<Rightarrow> error + 64 word child_iter" where
  "table_AB n c r = Inr [Inr row_A, Inr row_B]"



definition eof_on_two :: "64 word sql_Expression" where
  "eof_on_two =
     Scalar (\<lambda>c row. case row of
                        [] \<Rightarrow> Inl (Errorf ''index out of range'')
                      | a # rest \<Rightarrow> if a = Some 2 then Inl EOF else Inr a)"

section \<open>Properties of the plan nodes\<close>

lemma nth_upt_append_left: "map (\<lambda>i. (xs @ ys) ! i) [0 ..< length xs] = xs"
  by (rule nth_equalityI) (simp_all add: nth_append)

lemma nth_upt_append_right: "map (\<lambda>i. (xs @ ys) ! (i + length xs)) [0 ..< length ys] = ys"
  by (rule nth_equalityI) (simp_all add: nth_append)

lemma GroupBy_WithExpressions_own:
  "GroupBy_WithExpressions p (GroupBy_Expressions p) = Inr p"
  by (simp add: GroupBy_WithExpressions_def GroupBy_Expressions_def NewGroupBy_def
      nth_upt_append_left nth_upt_append_right)

lemma WithChildren_own: "WithChildren n (Children n) = Inr n"
  by (cases n)
    (simp_all add: GroupBy_WithChildren_def GroupBy_Children_def NewGroupBy_def
      ChangeReplicationSource_WithChildren_def ChangeReplicationSource_Children_def
      StartReplica_WithChildren_def StartReplica_Children_def
      StopReplica_WithChildren_def StopReplica_Children_def)

lemma WithChildren_error_iff:
  "(\<exists>e. WithChildren n children = Inl e) \<longleftrightarrow> length children \<noteq> length (Children n)"
  by (cases n)
    (simp_all add: GroupBy_WithChildren_def GroupBy_Children_def
      ChangeReplicationSource_WithChildren_def ChangeReplicationSource_Children_def
      StartReplica_WithChildren_def StartReplica_Children_def
      StopReplica_WithChildren_def StopReplica_Children_def)

lemma WithChildren_error_kind:
  "WithChildren n children = Inl e \<Longrightarrow>
     e = ErrInvalidChildrenNumber (length children) (length (Children n))"
  by (cases n)
    (auto simp add: GroupBy_WithChildren_def GroupBy_Children_def
      ChangeReplicationSource_WithChildren_def ChangeReplicationSource_Children_def
      StartReplica_WithChildren_def StartReplica_Children_def
      StopReplica_WithChildren_def StopReplica_Children_def split: if_splits)

lemma GroupBy_WithExpressions_error_iff:
  "(\<exists>e. GroupBy_WithExpressions p exprs = Inl e) \<longleftrightarrow>
     length exprs \<noteq> length (GroupBy_Expressions p)"
  by (simp add: GroupBy_WithExpressions_def GroupBy_Expressions_def Let_def)

lemma GroupBy_WithExpressions_error_kind:
  "GroupBy_WithExpressions p exprs =
     Inl (ErrInvalidChildrenNumber (length exprs) (length (SelectedExprs p) + length (GroupByExprs p)))
   \<longleftrightarrow> length exprs \<noteq> length (GroupBy_Expressions p)"
  by (simp add: GroupBy_WithExpressions_def GroupBy_Expressions_def Let_def)

text \<open>
  Claim C8: for a GroupBy, ChangeReplicationSource, StartReplica or StopReplica node \<open>n\<close>,
  \<open>WithChildren\<close> applied to the node's own children gives the node back, and it fails,
  with the invalid-children-number error, exactly when the number of nodes passed differs
  from the number of children of \<open>n\<close>. For a GroupBy \<open>p\<close>, the expressions are the selected
  expressions followed by the group-by expressions, \<open>WithExpressions\<close> applied to them gives
  \<open>p\<close> back, and it fails, with the same kind of error, exactly when the number of
  expressions passed differs from theirs.
\<close>

theorem WithChildren_WithExpressions_roundtrip:
  "WithChildren n (Children n) = Inr n \<and>
   ((\<exists>e. WithChildren n children = Inl e) = (length children \<noteq> length (Children n))) \<and>
   ((WithChildren n children =
       Inl (ErrInvalidChildrenNumber (length children) (length (Children n)))) =
     (length children \<noteq> length (Children n))) \<and>
   GroupBy_Expressions p = SelectedExprs p @ GroupByExprs p \<and>
   GroupBy_WithExpressions p (GroupBy_Expressions p) = Inr p \<and>
   ((\<exists>e. GroupBy_WithExpressions p exprs = Inl e) =
     (length exprs \<noteq> length (GroupBy_Expressions p))) \<and>
   ((GroupBy_WithExpressions p exprs =
       Inl (ErrInvalidChildrenNumber (length exprs)
             (length (SelectedExprs p) + length (GroupByExprs p)))) =
     (length exprs \<noteq> length (GroupBy_Expressions p)))"
proof -
  have kind: "(WithChildren n children =
       Inl (ErrInvalidChildrenNumber (length children) (length (Children n)))) =
     (length children \<noteq> length (Children n))"
    using WithChildren_error_iff [of n children] WithChildren_error_kind [of n children]
    by (cases "WithChildren n children") auto
  have exprs: "GroupBy_Expressions p = SelectedExprs p @ GroupByExprs p"
    by (simp add: GroupBy_Expressions_def)
  show ?thesis
    using kind exprs WithChildren_own [of n] WithChildren_error_iff [of n children]
      GroupBy_WithExpressions_own [of p] GroupBy_WithExpressions_error_iff [of p exprs]
      GroupBy_WithExpressions_error_kind [of p exprs]
    by blast
qed

text \<open>
  Claim C9, as the spec states it: \<open>RowIter\<close> of the three replication nodes returns
  the error \<open>replication not supported\<close>. The error the code makes with \<open>fmt.Errorf\<close>
  has another message.
\<close>

theorem replication_error_has_another_message:
  "(StartReplica_RowIter NewStartReplica query7 ([] :: unit list) :: error + unit) \<noteq>
     Inl (Errorf ''replication not supported'')"
  by (simp add: StartReplica_RowIter_def)

text \<open>
  Claim C9, amended: a ChangeReplicationSource, StartReplica or StopReplica node is always
  resolved, and \<open>RowIter\<close> returns no iterator but the error with the message
  \<open>replication statements not supported\<close>, for every context and row.
\<close>

theorem replication_nodes_resolved_not_supported:
  "ChangeReplicationSource_Resolved c \<and> StartReplica_Resolved start \<and> StopReplica_Resolved stop \<and>
   ChangeReplicationSource_RowIter c qctx row = Inl (Errorf ''replication statements not supported'') \<and>
   StartReplica_RowIter start qctx row = Inl (Errorf ''replication statements not supported'') \<and>
   StopReplica_RowIter stop qctx row = Inl (Errorf ''replication statements not supported'')"
  by (simp add: ChangeReplicationSource_Resolved_def StartReplica_Resolved_def
      StopReplica_Resolved_def ChangeReplicationSource_RowIter_def StartReplica_RowIter_def
      StopReplica_RowIter_def)

section \<open>Properties of the process list\<close>

lemma Processes_loop_fst: "fst (Processes_loop xs result pl) = result @ xs"
  by (induction xs arbitrary: result pl) (simp_all add: Let_def split: prod.splits)

lemma Processes_fst:
  "fst (Processes pl) = map (\<lambda>id'. the (procs pl id')) (sorted_list_of_set (dom (procs pl)))"
  by (simp add: Processes_def Processes_loop_fst)

lemma in_Processes: "procs pl c = Some p \<Longrightarrow> p \<in> set (fst (Processes pl))"
  by (force simp add: Processes_fst)

lemma BeginQuery_running7:
  "BeginQuery 1 query7 ''select'' ready1 = (Inr (query7\<lparr>CancelRef := Some 0\<rparr>), running7)"
  by (simp add: running7_def ready1_def BeginQuery_def ConnectionReady_def NewProcessList_def
      session1_def query7_def make_tableMap_def Let_def)

lemma tableMap_set_procs: "procs (snd (tableMap_set pl m name v)) = procs pl"
  by (simp add: tableMap_set_def split: option.splits)

lemma partitionMap_set_procs: "procs (snd (partitionMap_set pl m name v)) = procs pl"
  by (simp add: partitionMap_set_def split: option.splits)

lemma tableMap_delete_procs: "procs (tableMap_delete pl m name) = procs pl"
  by (simp add: tableMap_delete_def split: option.splits)

lemma partitionMap_delete_procs: "procs (partitionMap_delete pl m name) = procs pl"
  by (simp add: partitionMap_delete_def split: option.splits)

lemma NewTableProgress_procs: "procs (snd (NewTableProgress name total' pl)) = procs pl"
  by (simp add: NewTableProgress_def make_partitionMap_def)

lemma UpdateTableProgress_procs: "procs (snd (UpdateTableProgress pid name delta pl)) = procs pl"
  by (simp add: UpdateTableProgress_def tableMap_set_procs NewTableProgress_procs split_beta Let_def
      split: option.splits)

lemma UpdatePartitionProgress_procs:
  "procs (snd (UpdatePartitionProgress pid name partitionName delta pl)) = procs pl"
  by (simp add: UpdatePartitionProgress_def partitionMap_set_procs Let_def split: option.splits)

lemma AddTableProgress_procs: "procs (snd (AddTableProgress pid name total' pl)) = procs pl"
  by (simp add: AddTableProgress_def tableMap_set_procs NewTableProgress_procs split_beta Let_def
      split: option.splits)

lemma AddPartitionProgress_procs:
  "procs (snd (AddPartitionProgress pid name partitionName total' pl)) = procs pl"
  by (simp add: AddPartitionProgress_def partitionMap_set_procs split: option.splits)

lemma RemoveTableProgress_procs: "procs (snd (RemoveTableProgress pid name pl)) = procs pl"
  by (simp add: RemoveTableProgress_def tableMap_delete_procs split: option.splits)

lemma RemovePartitionProgress_procs:
  "procs (snd (RemovePartitionProgress pid name partitionName pl)) = procs pl"
  by (simp add: RemovePartitionProgress_def partitionMap_delete_procs split: option.splits)

lemma Processes_loop_procs: "procs (snd (Processes_loop xs result pl)) = procs pl"
  by (induction xs arbitrary: result pl) (simp_all add: Let_def make_tableMap_def split: prod.splits)

lemma Processes_procs: "procs (snd (Processes pl)) = procs pl"
  by (simp add: Processes_def Processes_loop_procs)

lemma ProcessList_Kill_procs: "procs (ProcessList_Kill connID pl) = procs pl"
  by (simp add: ProcessList_Kill_def call_Kill_def split: option.splits)

lemmas progress_procs = UpdateTableProgress_procs UpdatePartitionProgress_procs
  AddTableProgress_procs AddPartitionProgress_procs RemoveTableProgress_procs
  RemovePartitionProgress_procs Processes_procs ProcessList_Kill_procs

lemma BeginQuery_query_running:
  "BeginQuery now qctx query pl = (Inr ctx1, pl1) \<Longrightarrow>
     query_running qctx pl1 \<and> query_running ctx1 pl1"
  by (auto simp add: BeginQuery_def query_running_def Let_def make_tableMap_def
      split: option.splits if_splits)

lemma EndQuery_query_running:
  "query_running c pl \<Longrightarrow>
     \<exists>pl2 p. EndQuery now2 c pl = (None, pl2) \<and> procs pl2 (SessionID c) = Some p \<and>
        Command p = ProcessCommandSleep \<and> Query p = [] \<and> QueryPid p = 0 \<and> Kill p = None \<and>
        Progress p = None"
  by (auto simp add: EndQuery_def query_running_def Let_def call_Kill_def split: option.splits)

lemma other_connection_query_running:
  assumes "query_running c pl" and "id' \<noteq> SessionID c" and "SessionID c' \<noteq> SessionID c"
  shows "query_running c (AddConnection now id' addr pl)"
    and "query_running c (RemoveConnection id' pl)"
    and "query_running c (snd (BeginQuery now c' query pl))"
    and "query_running c (snd (EndQuery now c' pl))"
  using assms
  by (auto simp add: query_running_def AddConnection_def RemoveConnection_def
      BeginQuery_def EndQuery_def call_Kill_def make_tableMap_def Let_def
      split: option.splits if_splits)

lemma UpdateTableProgress_running7:
  "\<exists>pl1. UpdateTableProgress 7 ''t'' 5 running7 = (None, pl1) \<and>
     map_option Done (tableMaps pl1 1 ''t'') = Some 5"
  by (simp add: running7_def ready1_def BeginQuery_def ConnectionReady_def
      NewProcessList_def session1_def query7_def make_tableMap_def Let_def UpdateTableProgress_def
      tableMap_get_def tableMap_set_def NewTableProgress_def make_partitionMap_def)

text \<open>
  Claim C6, as the spec states it: in every reachable state the number of entries of
  \<open>Processes()\<close> is the number of connections whose command is not sleep. It fails
  on the state reached from the empty list by \<open>ConnectionReady\<close> for session 1: the only
  connection sleeps, so no connection has a non-sleep command, and yet \<open>Processes()\<close>
  returns one entry, the sleeping one.
\<close>

theorem Processes_lists_sleeping_connection:
  "dom (procs ready1) = {1} \<and>
   fst (Processes ready1) =
     [\<lparr>Connection = 1, Command = ProcessCommandSleep, Host = ''localhost'', User = ''root'',
       Query = [], QueryPid = 0, StartedAt = 0, Kill = None, Progress = None\<rparr>]"
  by (simp add: Processes_fst ready1_def ConnectionReady_def NewProcessList_def session1_def)

text \<open>
  Claim C6, amended: in every state the number of entries of \<open>Processes()\<close> is the number
  of registered connections, whatever their command. A successful \<open>BeginQuery\<close> leaves
  its connection running the query of its context (the one passed in and the one
  returned); the connection goes on running it through every progress operation, every
  \<open>Processes()\<close> and \<open>Kill\<close>, and every operation on another connection; and
  as long as it does, an \<open>EndQuery\<close> with that context ends without a panic and sets
  the command of the connection to sleep, so that \<open>Processes()\<close> lists the connection
  with that command.
\<close>

theorem Processes_length_and_EndQuery_sleep:
  "length (fst (Processes pl)) = card (dom (procs pl)) \<and>
   (BeginQuery now qctx query pl = (Inr ctx1, pl1) \<longrightarrow>
      query_running qctx pl1 \<and> query_running ctx1 pl1) \<and>
   (query_running c pl \<longrightarrow>
      query_running c (snd (UpdateTableProgress pid name delta pl)) \<and>
      query_running c (snd (UpdatePartitionProgress pid name partitionName delta pl)) \<and>
      query_running c (snd (AddTableProgress pid name total' pl)) \<and>
      query_running c (snd (AddPartitionProgress pid name partitionName total' pl)) \<and>
      query_running c (snd (RemoveTableProgress pid name pl)) \<and>
      query_running c (snd (RemovePartitionProgress pid name partitionName pl)) \<and>
      query_running c (snd (Processes pl)) \<and>
      query_running c (ProcessList_Kill connID pl) \<and>
      (SessionID c' \<noteq> SessionID c \<longrightarrow>
         query_running c (AddConnection now (SessionID c') addr pl) \<and>
         query_running c (RemoveConnection (SessionID c') pl) \<and>
         query_running c (snd (BeginQuery now c' query pl)) \<and>
         query_running c (snd (EndQuery now c' pl))) \<and>
      (ID sess \<noteq> SessionID c \<longrightarrow> query_running c (ConnectionReady now sess pl)) \<and>
      (\<exists>pl2 p. EndQuery now2 c pl = (None, pl2) \<and> procs pl2 (SessionID c) = Some p \<and>
         Command p = ProcessCommandSleep \<and> p \<in> set (fst (Processes pl2))))"
proof (intro conjI impI)
  show "length (fst (Processes pl)) = card (dom (procs pl))"
    by (simp add: Processes_fst)
next
  assume "BeginQuery now qctx query pl = (Inr ctx1, pl1)"
  then show "query_running qctx pl1" "query_running ctx1 pl1"
    by (simp_all add: BeginQuery_query_running)
next
  assume r: "query_running c pl"
  then show "query_running c (snd (UpdateTableProgress pid name delta pl))"
    "query_running c (snd (UpdatePartitionProgress pid name partitionName delta pl))"
    "query_running c (snd (AddTableProgress pid name total' pl))"
    "query_running c (snd (AddPartitionProgress pid name partitionName total' pl))"
    "query_running c (snd (RemoveTableProgress pid name pl))"
    "query_running c (snd (RemovePartitionProgress pid name partitionName pl))"
    "query_running c (snd (Processes pl))"
    "query_running c (ProcessList_Kill connID pl)"
    by (simp_all add: query_running_def progress_procs)
  from r obtain pl2 p where
    e: "EndQuery now2 c pl = (None, pl2)" and
    p: "procs pl2 (SessionID c) = Some p" "Command p = ProcessCommandSleep"
    using EndQuery_query_running by blast
  from p(1) have "p \<in> set (fst (Processes pl2))"
    by (rule in_Processes)
  with e p
  show "\<exists>pl2 p. EndQuery now2 c pl = (None, pl2) \<and> procs pl2 (SessionID c) = Some p \<and>
        Command p = ProcessCommandSleep \<and> p \<in> set (fst (Processes pl2))"
    by blast
next
  assume "query_running c pl" and "ID sess \<noteq> SessionID c"
  then show "query_running c (ConnectionReady now sess pl)"
    by (simp add: query_running_def ConnectionReady_def)
next
  assume r: "query_running c pl" and o: "SessionID c' \<noteq> SessionID c"
  then show "query_running c (AddConnection now (SessionID c') addr pl)"
    "query_running c (RemoveConnection (SessionID c') pl)"
    "query_running c (snd (BeginQuery now c' query pl))"
    "query_running c (snd (EndQuery now c' pl))"
    by (simp_all add: other_connection_query_running)
qed

theorem Processes_length_and_EndQuery_sleep_witness:
  "BeginQuery 1 query7 ''select'' ready1 = (Inr (query7\<lparr>CancelRef := Some 0\<rparr>), running7) \<and>
   length (fst (Processes ready1)) = card (dom (procs ready1)) \<and>
   query_running query7 running7 \<and>
   (\<exists>pl1. UpdateTableProgress 7 ''t'' 5 running7 = (None, pl1) \<and>
      map_option Done (tableMaps pl1 1 ''t'') = Some 5 \<and>
      query_running query7 pl1 \<and>
      (\<exists>pl2 p. EndQuery 2 query7 pl1 = (None, pl2) \<and> procs pl2 (SessionID query7) = Some p \<and>
         Command p = ProcessCommandSleep \<and> p \<in> set (fst (Processes pl2))))"
proof -
  have b: "BeginQuery 1 query7 ''select'' ready1 = (Inr (query7\<lparr>CancelRef := Some 0\<rparr>), running7)"
    by (rule BeginQuery_running7)
  have l: "length (fst (Processes ready1)) = card (dom (procs ready1))"
    and r: "query_running query7 running7"
    using Processes_length_and_EndQuery_sleep
      [where pl = ready1 and now = 1 and qctx = query7 and query = "''select''"
         and ?ctx1.0 = "query7\<lparr>CancelRef := Some 0\<rparr>" and ?pl1.0 = running7] b
    by blast+
  obtain pl1 where u: "UpdateTableProgress 7 ''t'' 5 running7 = (None, pl1)"
    and d: "map_option Done (tableMaps pl1 1 ''t'') = Some 5"
    using UpdateTableProgress_running7 by blast
  have "query_running query7 (snd (UpdateTableProgress 7 ''t'' 5 running7))"
    using Processes_length_and_EndQuery_sleep
      [where pl = running7 and c = query7 and pid = 7 and name = "''t''" and delta = 5] r
    by blast
  then have r1: "query_running query7 pl1"
    by (simp add: u)
  have "\<exists>pl2 p. EndQuery 2 query7 pl1 = (None, pl2) \<and> procs pl2 (SessionID query7) = Some p \<and>
         Command p = ProcessCommandSleep \<and> p \<in> set (fst (Processes pl2))"
    using Processes_length_and_EndQuery_sleep [where pl = pl1 and c = query7 and ?now2.0 = 2] r1
    by blast
  with b l r u d r1 show ?thesis
    by blast
qed

text \<open>
  The state is needed: when a second \<open>BeginQuery\<close>, with pid 8, has followed on
  connection 1, the connection runs query 8, and \<open>EndQuery\<close> with the context of query 7
  leaves its command as it is.
\<close>

lemma EndQuery_of_a_replaced_query:
  "\<exists>c1 pl1 pl2 p.
     BeginQuery 2 (query7\<lparr>Pid := 8\<rparr>) ''update'' running7 = (Inr c1, pl1) \<and>
     \<not> query_running query7 pl1 \<and>
     EndQuery 3 query7 pl1 = (None, pl2) \<and> procs pl2 1 = Some p \<and>
     Command p = ProcessCommandQuery \<and> QueryPid p = 8"
  by (simp add: running7_def ready1_def BeginQuery_def EndQuery_def ConnectionReady_def
      NewProcessList_def session1_def query7_def make_tableMap_def query_running_def Let_def)

text \<open>
  Claim C7: \<open>Processes()\<close> returns a snapshot that later operations leave unchanged,
  its progress map included. The code does not do this. With a query of pid 7 running
  on connection 1, the value \<open>Processes()\<close> returns refers to map 1, the progress map of
  the live process; the copy the loop builds (map 2) is dropped. Before the update map 1
  has no entry for table \<open>t\<close>; after \<open>UpdateTableProgress(7, "t", 5)\<close> the same map, read
  through the returned value, has an entry with \<open>Done = 5\<close>.
\<close>

theorem Processes_snapshot_shares_progress_map:
  "Progress (hd (fst (Processes running7))) = Some 1 \<and>
   tableMaps (snd (Processes running7)) 1 ''t'' = None \<and>
   map_option Done
     (tableMaps (snd (UpdateTableProgress 7 ''t'' 5 (snd (Processes running7)))) 1 ''t'') = Some 5"
  by (simp add: Processes_def running7_def ready1_def BeginQuery_def ConnectionReady_def
      NewProcessList_def session1_def query7_def make_tableMap_def Let_def UpdateTableProgress_def
      tableMap_get_def tableMap_set_def NewTableProgress_def make_partitionMap_def)

text \<open>
  Claim C10: each of the six progress operations, called with a pid that is not bound to
  a live query (no entry in \<open>byQueryPid\<close>, or an entry for a connection that is no longer
  registered), returns without error or panic and leaves the whole state as it was.
\<close>

theorem progress_unbound_pid_noop:
  assumes "\<forall>id'. byQueryPid pl pid = Some id' \<longrightarrow> procs pl id' = None"
  shows "UpdateTableProgress pid name delta pl = (None, pl) \<and>
         UpdatePartitionProgress pid name partitionName delta pl = (None, pl) \<and>
         AddTableProgress pid name total' pl = (None, pl) \<and>
         AddPartitionProgress pid name partitionName total' pl = (None, pl) \<and>
         RemoveTableProgress pid name pl = (None, pl) \<and>
         RemovePartitionProgress pid name partitionName pl = (None, pl)"
  using assms
  by (auto simp add: UpdateTableProgress_def UpdatePartitionProgress_def AddTableProgress_def
      AddPartitionProgress_def RemoveTableProgress_def RemovePartitionProgress_def
      split: option.splits)

lemma running7_byQueryPid: "byQueryPid running7 = [7 \<mapsto> 1]"
  by (simp add: running7_def ready1_def BeginQuery_def ConnectionReady_def NewProcessList_def
      session1_def query7_def make_tableMap_def Let_def)

theorem progress_unbound_pid_noop_witness:
  "byQueryPid running7 7 = Some 1 \<and> byQueryPid running7 8 = None \<and>
   UpdateTableProgress 8 ''t'' 5 running7 = (None, running7) \<and>
   UpdatePartitionProgress 8 ''t'' ''p'' 5 running7 = (None, running7) \<and>
   AddTableProgress 8 ''t'' 10 running7 = (None, running7) \<and>
   AddPartitionProgress 8 ''t'' ''p'' 10 running7 = (None, running7) \<and>
   RemoveTableProgress 8 ''t'' running7 = (None, running7) \<and>
   RemovePartitionProgress 8 ''t'' ''p'' running7 = (None, running7)"
  using progress_unbound_pid_noop [of running7 8 "''t''" 5 "''p''" 10]
  by (simp add: running7_byQueryPid)

section \<open>Properties of the generator rule\<close>

lemma findGenerator_loop_none:
  "\<forall>e \<in> set exprs. found_generator e = None \<Longrightarrow> findGenerator_loop i exprs g = Inr g"
  by (induction exprs arbitrary: i) simp_all

lemma findGenerator_loop_second:
  "\<exists>e \<in> set exprs. found_generator e \<noteq> None \<Longrightarrow> 0 \<le> idx g \<Longrightarrow>
     findGenerator_loop i exprs g = Inl ErrMultipleGenerators"
  by (induction exprs arbitrary: i) (auto split: option.splits)

lemma findGenerator_loop_first:
  assumes "\<forall>x \<in> set pre. found_generator x = None" and "found_generator e = Some ge"
    and "idx g < 0"
  shows "findGenerator_loop i (pre @ e # post) g =
     (if \<not> IsArray (Type ge) then Inl (ErrExplodeNotArray (Type ge))
      else findGenerator_loop (Suc (i + length pre)) post
             (g\<lparr>expr := Some ge, idx := int (i + length pre)\<rparr>))"
  using assms
  by (induction pre arbitrary: i) (auto simp add: Let_def)

lemma findGenerator_none:
  "\<forall>e \<in> set exprs. found_generator e = None \<Longrightarrow> findGenerator exprs = Inr None"
  by (simp add: findGenerator_def findGenerator_loop_none)

lemma findGenerator_not_array:
  assumes "\<forall>x \<in> set pre. found_generator x = None" and "found_generator e = Some ge"
    and "\<not> IsArray (Type ge)"
  shows "findGenerator (pre @ e # post) = Inl (ErrExplodeNotArray (Type ge))"
  using assms by (simp add: findGenerator_def findGenerator_loop_first)

lemma findGenerator_multiple:
  assumes "\<forall>x \<in> set pre. found_generator x = None" and "found_generator e = Some ge"
    and "IsArray (Type ge)" and "\<exists>x \<in> set post. found_generator x \<noteq> None"
  shows "findGenerator (pre @ e # post) = Inl ErrMultipleGenerators"
  using assms by (simp add: findGenerator_def findGenerator_loop_first findGenerator_loop_second)

lemma findGenerator_one:
  assumes "\<forall>x \<in> set pre. found_generator x = None" and "found_generator e = Some ge"
    and "IsArray (Type ge)" and "\<forall>x \<in> set post. found_generator x = None"
  shows "findGenerator (pre @ e # post) = Inr (Some \<lparr>idx = int (length pre), expr = Some ge\<rparr>)"
  using assms by (simp add: findGenerator_def findGenerator_loop_first findGenerator_loop_none)

lemma found_generator_Type:
  "found_generator e = Some ge \<Longrightarrow>
     \<exists>arg. (e = Explode arg \<or> (\<exists>name. e = expression_Alias name (Explode arg))) \<and>
       Type ge = Type arg"
  by (induction e rule: found_generator.induct) auto

text \<open>
  Claim C3, as the spec states it: the rule fails with the multiple-generators error
  whenever the projection contains more than one EXPLODE. It does not when the first
  EXPLODE is applied to something that is not an array: for
  \<open>SELECT EXPLODE(a), EXPLODE(arr)\<close> with an integer column \<open>a\<close> the loop of
  \<open>findGenerator\<close> returns the explode-not-array error at the first EXPLODE and never
  reaches the second.
\<close>

theorem two_explodes_first_not_array:
  "resolveGenerators_fn (Project [Explode col_a, Explode col_arr] table_t) =
     Inl (ErrExplodeNotArray Int64)"
  by (simp add: findGenerator_def col_a_def col_arr_def)

text \<open>
  Claim C3, amended. An item of the projection is an EXPLODE when it is an
  \<open>Explode\<close> or an alias of one (\<open>found_generator\<close> gives the generate expression that
  replaces it, whose type is the type of the argument of EXPLODE). For a Project node the
  rule (i) returns the node unchanged when no item is an EXPLODE; otherwise, with \<open>e\<close>
  the first EXPLODE, at index \<open>length pre\<close>: (iv) it fails with the explode-not-array
  error when the type of the argument of \<open>e\<close> is not an array, whether or not other
  EXPLODEs follow; (iii) it fails with the multiple-generators error when that type is an
  array and another EXPLODE follows; (ii) and when \<open>e\<close> is the only EXPLODE and of array
  type, it returns a Generate node over the Project in which \<open>e\<close> is replaced by its
  generate expression, the generated column being the field at the index of \<open>e\<close>.
\<close>

theorem resolveGenerators_Project:
  "((\<forall>e \<in> set projection. found_generator e = None) \<longrightarrow>
      resolveGenerators_fn (Project projection ch) = Inr (Project projection ch)) \<and>
   (projection = pre @ e # post \<and> (\<forall>x \<in> set pre. found_generator x = None) \<and>
    found_generator e = Some ge \<longrightarrow>
      (\<exists>arg. (e = Explode arg \<or> (\<exists>name. e = expression_Alias name (Explode arg))) \<and>
         Type ge = Type arg) \<and>
      resolveGenerators_fn (Project projection ch) =
        (if \<not> IsArray (Type ge) then Inl (ErrExplodeNotArray (Type ge))
         else if \<exists>x \<in> set post. found_generator x \<noteq> None then Inl ErrMultipleGenerators
         else Inr (Generate (Project (pre @ ge # post) ch)
                (GetField (length pre) (Type ge)
                   (case Nameable_Name ge of Some n \<Rightarrow> n | None \<Rightarrow> String ge)
                   (IsNullable ge)))))"
  by (auto simp add: findGenerator_none findGenerator_not_array findGenerator_multiple
      findGenerator_one Let_def list_update_append dest: found_generator_Type)

theorem resolveGenerators_Project_witness:
  "resolveGenerators_fn (Project [col_a, col_a] table_t) = Inr (Project [col_a, col_a] table_t) \<and>
   resolveGenerators_fn (Project [col_a, expression_Alias ''x'' (Explode col_arr), col_a] table_t) =
     Inr (Generate
           (Project [col_a, expression_Alias ''x'' (function_Generate col_arr), col_a] table_t)
           (GetField 1 (Array Int64) ''x'' True)) \<and>
   resolveGenerators_fn (Project [Explode col_arr, col_a, Explode col_arr] table_t) =
     Inl ErrMultipleGenerators \<and>
   resolveGenerators_fn (Project [col_a, Explode col_a] table_t) = Inl (ErrExplodeNotArray Int64)"
  using resolveGenerators_Project [of "[col_a, col_a]" table_t]
    resolveGenerators_Project
      [of "[col_a, expression_Alias ''x'' (Explode col_arr), col_a]" table_t "[col_a]"
          "expression_Alias ''x'' (Explode col_arr)" "[col_a]"
          "expression_Alias ''x'' (function_Generate col_arr)"]
    resolveGenerators_Project
      [of "[Explode col_arr, col_a, Explode col_arr]" table_t "[]" "Explode col_arr"
          "[col_a, Explode col_arr]" "function_Generate col_arr"]
    resolveGenerators_Project
      [of "[col_a, Explode col_a]" table_t "[col_a]" "Explode col_a" "[]" "function_Generate col_a"]
  by (simp add: col_a_def col_arr_def)

section \<open>Properties of the GroupBy iterators\<close>

subsection \<open>First appearance\<close>

lemma set_first_appearance: "set (first_appearance xs) = set xs"
  by (induction xs rule: first_appearance.induct) auto

lemma distinct_first_appearance: "distinct (first_appearance xs)"
  by (induction xs rule: first_appearance.induct) (auto simp add: set_first_appearance)

lemma first_appearance_snoc:
  "first_appearance (xs @ [x]) =
     (if x \<in> set xs then first_appearance xs else first_appearance xs @ [x])"
  by (induction xs rule: first_appearance.induct) auto

subsection \<open>Filling and evaluating the buffers\<close>





subsection \<open>Next of the iterator without grouping\<close>

lemma groupByIter_Next_done: "groupByIter_Next i = (r, i1) \<Longrightarrow> done' i1"
  by (auto simp add: groupByIter_Next_def Let_def split: if_splits prod.splits option.splits)

lemma groupByIter_Next_when_done: "done' i \<Longrightarrow> groupByIter_Next i = (Inl EOF, i)"
  by (simp add: groupByIter_Next_def)


subsection \<open>No end signal from the expressions\<close>

lemma Eval_never_EOF: "never_EOF e \<Longrightarrow> Eval e c row \<noteq> Inl EOF"
  by (induction e) auto

lemma evalBuffer_never_EOF: "never_EOF e \<Longrightarrow> evalBuffer c e b \<noteq> Inl EOF"
  by (induction e) auto

lemma updateBuffer_never_EOF: "never_EOF e \<Longrightarrow> fst (updateBuffer c bs i e row) \<noteq> Some EOF"
proof (induction e)
  case (Aggregation newBuffer update eval)
  then have "fst (update c (bs ! i) row) \<noteq> Some EOF"
    by simp
  then show ?case
    by (auto split: prod.splits)
next
  case (Alias name e)
  then show ?case by simp
next
  case (Scalar eval)
  then show ?case
    by (auto split: sum.splits)
qed

lemma updateBuffers_loop_never_EOF:
  "\<forall>e \<in> set aggs. never_EOF e \<Longrightarrow> fst (updateBuffers_loop c bs i aggs row) \<noteq> Some EOF"
proof (induction aggs arbitrary: bs i)
  case Nil
  then show ?case by simp
next
  case (Cons a aggs)
  then show ?case
    using updateBuffer_never_EOF [of a c bs i row]
    by (auto split: prod.splits option.splits)
qed

lemma updateBuffers_never_EOF:
  "\<forall>e \<in> set aggs. never_EOF e \<Longrightarrow> fst (updateBuffers c bs aggs row) \<noteq> Some EOF"
  by (simp add: updateBuffers_def updateBuffers_loop_never_EOF)

lemma evalBuffers_loop_never_EOF:
  "\<forall>e \<in> set aggs. never_EOF e \<Longrightarrow> evalBuffers_loop c bs i aggs row \<noteq> Inl EOF"
proof (induction aggs arbitrary: i row)
  case Nil
  then show ?case by simp
next
  case (Cons a aggs)
  then show ?case
    using evalBuffer_never_EOF [of a c "bs ! i"]
    by (auto split: sum.splits)
qed

lemma evalBuffers_never_EOF:
  "\<forall>e \<in> set aggs. never_EOF e \<Longrightarrow> evalBuffers c bs aggs \<noteq> Inl EOF"
  by (simp add: evalBuffers_def evalBuffers_loop_never_EOF)

lemma groupingKey_loop_never_EOF:
  "\<forall>e \<in> set exprs. never_EOF e \<Longrightarrow> groupingKey_loop S c exprs row vals \<noteq> Inl EOF"
proof (induction exprs arbitrary: vals)
  case Nil
  then show ?case by simp
next
  case (Cons e exprs)
  then show ?case
    using Eval_never_EOF [of e c row]
    by (auto split: sum.splits)
qed

lemma groupingKey_never_EOF:
  "\<forall>e \<in> set exprs. never_EOF e \<Longrightarrow> groupingKey S c exprs row \<noteq> Inl EOF"
  using groupingKey_loop_never_EOF [of exprs S c row "[]"]
  by (auto simp add: groupingKey_def split: sum.splits)

lemma compute_group_never_EOF: "fst (compute_group c sel aggs ks key) \<noteq> Some EOF"
  by (auto simp add: compute_group_def cache_Get_def cache_Put_def Let_def split: option.splits)

lemma compute_loop_never_EOF:
  assumes "\<forall>e \<in> set sel. never_EOF e" and "\<forall>e \<in> set grp. never_EOF e"
  shows "fst (compute_loop S c sel grp ch aggs ks) \<noteq> Some EOF"
  using assms
proof (induction S c sel grp ch aggs ks rule: compute_loop.induct)
  case (1 Sprintf c sel grp aggs ks)
  then show ?case by simp
next
  case (2 Sprintf c sel grp err rest aggs ks)
  then show ?case by simp
next
  case (3 Sprintf c sel grp row rest aggs ks)
  show ?case
  proof (cases "groupingKey Sprintf c grp row")
    case (Inl e)
    then have "e \<noteq> EOF"
      using groupingKey_never_EOF [of grp Sprintf c row] "3.prems"(2) by auto
    with Inl show ?thesis by simp
  next
    case key: (Inr key)
    obtain ge aggs1 ks1 where cg: "compute_group c sel aggs ks key = (ge, aggs1, ks1)"
      by (cases "compute_group c sel aggs ks key") auto
    show ?thesis
    proof (cases ge)
      case (Some e)
      then have "e \<noteq> EOF"
        using compute_group_never_EOF [of c sel aggs ks key] cg by auto
      with key cg Some show ?thesis by simp
    next
      case no_err: None
      show ?thesis
      proof (cases "cache_Get aggs1 key")
        case (Inl e)
        then have "e \<noteq> EOF"
          by (auto simp add: cache_Get_def split: option.splits)
        with key cg no_err Inl show ?thesis by simp
      next
        case got: (Inr b)
        obtain ue b1 where ub: "updateBuffers c b sel row = (ue, b1)"
          by (cases "updateBuffers c b sel row") auto
        show ?thesis
        proof (cases ue)
          case (Some e)
          then have "e \<noteq> EOF"
            using updateBuffers_never_EOF [of sel c b row] "3.prems"(1) ub by auto
          with key cg no_err got ub Some show ?thesis by simp
        next
          case None
          have "fst (compute_loop Sprintf c sel grp rest (aggs1(key \<mapsto> b1)) ks1) \<noteq> Some EOF"
            by (rule "3.IH" [OF key cg [symmetric] no_err refl got ub [symmetric] None "3.prems"])
          with key cg no_err got ub None show ?thesis by simp
        qed
      qed
    qed
  qed
qed

subsection \<open>Next of the iterator with grouping\<close>

lemma compute_never_EOF:
  assumes "\<forall>e \<in> set (selectedExprs i). never_EOF e" and "\<forall>e \<in> set (groupByExprs i). never_EOF e"
  shows "fst (compute S i) \<noteq> Some EOF"
proof (cases "aggregations i")
  case None
  then show ?thesis by (simp add: compute_def)
next
  case (Some aggs)
  then show ?thesis
    using compute_loop_never_EOF [OF assms, of S "ctx i" "child i" aggs "keys i"]
    by (auto simp add: compute_def split: prod.splits)
qed

lemma compute_fields:
  "compute S i = (err, i1) \<Longrightarrow> aggregations i = Some aggs \<Longrightarrow>
     selectedExprs i1 = selectedExprs i \<and> groupByExprs i1 = groupByExprs i \<and> ctx i1 = ctx i \<and>
     pos i1 = pos i \<and> (\<exists>aggs1. aggregations i1 = Some aggs1)"
  by (auto simp add: compute_def split: option.splits prod.splits)

lemma grouping_Next_computed:
  "aggregations i = Some aggs \<Longrightarrow>
     groupByGroupingIter_Next S i =
       (if pos i \<ge> length (keys i) then (Inl EOF, i)
        else
          (case cache_Get aggs (keys i ! pos i) of
             Inl err \<Rightarrow> (Inl err, i)
           | Inr buffers \<Rightarrow>
               (evalBuffers (ctx i) buffers (selectedExprs i), i\<lparr>pos := pos i + 1\<rparr>)))"
  by (simp add: groupByGroupingIter_Next_def Let_def split: sum.splits)

lemma grouping_Next_first:
  assumes "aggregations i = None"
    and "compute S (i\<lparr>aggregations := Some NewHistoryCache\<rparr>) = (None, i1)"
  shows "groupByGroupingIter_Next S i = groupByGroupingIter_Next S i1"
proof -
  obtain aggs1 where "aggregations i1 = Some aggs1"
    using compute_fields [OF assms(2)] by auto
  then have "groupByGroupingIter_Next S i1 =
      (case (None, i1) of
         (Some err, i1) \<Rightarrow> (Inl err, i1)
       | (None, i1) \<Rightarrow>
          if pos i1 \<ge> length (keys i1) then (Inl EOF, i1)
          else
            (case aggregations i1 of
               None \<Rightarrow> (Inl (Panic ''nil pointer dereference''), i1)
             | Some aggs \<Rightarrow>
                 (case cache_Get aggs (keys i1 ! pos i1) of
                    Inl err \<Rightarrow> (Inl err, i1)
                  | Inr buffers \<Rightarrow>
                      let i2 = i1\<lparr>pos := pos i1 + 1\<rparr>
                      in (evalBuffers (ctx i2) buffers (selectedExprs i2), i2))))"
    by (simp add: groupByGroupingIter_Next_def)
  then show ?thesis
    using assms by (simp add: groupByGroupingIter_Next_def)
qed

lemma grouping_Next_EOF_computed:
  assumes "\<forall>e \<in> set (selectedExprs i). never_EOF e" and a: "aggregations i = Some aggs"
    and "groupByGroupingIter_Next S i = (Inl EOF, i1)"
  shows "i1 = i \<and> pos i \<ge> length (keys i)"
proof (cases "pos i \<ge> length (keys i)")
  case True
  then show ?thesis using assms by (simp add: grouping_Next_computed)
next
  case False
  show ?thesis
  proof (cases "cache_Get aggs (keys i ! pos i)")
    case (Inl e)
    then have "e \<noteq> EOF" by (auto simp add: cache_Get_def split: option.splits)
    then show ?thesis using assms False Inl by (simp add: grouping_Next_computed)
  next
    case (Inr buffers)
    have "evalBuffers (ctx i) buffers (selectedExprs i) \<noteq> Inl EOF"
      using evalBuffers_never_EOF assms(1) by blast
    then show ?thesis using assms False Inr by (simp add: grouping_Next_computed)
  qed
qed

lemma grouping_Next_EOF_sticky:
  assumes sel: "\<forall>e \<in> set (selectedExprs i). never_EOF e"
    and grp: "\<forall>e \<in> set (groupByExprs i). never_EOF e"
    and eof: "groupByGroupingIter_Next S i = (Inl EOF, i1)"
  shows "groupByGroupingIter_Next S i1 = (Inl EOF, i1)"
proof (cases "aggregations i")
  case (Some aggs)
  then have "i1 = i \<and> pos i \<ge> length (keys i)"
    using grouping_Next_EOF_computed [OF sel _ eof] by simp
  then show ?thesis using eof by simp
next
  case None
  let ?i0 = "i\<lparr>aggregations := Some NewHistoryCache\<rparr>"
  obtain err i2 where c: "compute S ?i0 = (err, i2)"
    by (cases "compute S ?i0") auto
  obtain aggs2 where f: "selectedExprs i2 = selectedExprs i" "aggregations i2 = Some aggs2"
    using compute_fields [OF c] by auto
  have "err \<noteq> Some EOF"
    using compute_never_EOF [of ?i0 S] sel grp c by simp
  show ?thesis
  proof (cases err)
    case (Some e)
    with \<open>err \<noteq> Some EOF\<close> have "e \<noteq> EOF" by simp
    then show ?thesis using eof None c Some by (simp add: groupByGroupingIter_Next_def)
  next
    case no: None
    then have same: "groupByGroupingIter_Next S i = groupByGroupingIter_Next S i2"
      using grouping_Next_first [OF None] c by simp
    then have "i1 = i2 \<and> pos i2 \<ge> length (keys i2)"
      using grouping_Next_EOF_computed [of i2 aggs2 S i1] sel f eof by simp
    then show ?thesis using same eof by simp
  qed
qed

lemma Next_EOF_sticky:
  assumes "case it of GroupByIter i \<Rightarrow> True
           | GroupByGroupingIter i \<Rightarrow>
               (\<forall>e \<in> set (selectedExprs i). never_EOF e) \<and> (\<forall>e \<in> set (groupByExprs i). never_EOF e)"
    and "Next S it = (Inl EOF, it1)"
  shows "Next S it1 = (Inl EOF, it1)"
proof (cases it)
  case (GroupByIter i)
  then obtain i1 where i1: "groupByIter_Next i = (Inl EOF, i1)" "it1 = GroupByIter i1"
    using assms(2) by (cases "groupByIter_Next i") auto
  then have "done' i1" using groupByIter_Next_done by blast
  then show ?thesis using i1 by (simp add: groupByIter_Next_when_done)
next
  case (GroupByGroupingIter i)
  then obtain i1 where i1: "groupByGroupingIter_Next S i = (Inl EOF, i1)" "it1 = GroupByGroupingIter i1"
    using assms(2) by (cases "groupByGroupingIter_Next S i") auto
  then show ?thesis
    using grouping_Next_EOF_sticky [of i S i1] assms(1) GroupByGroupingIter by simp
qed

lemma Nexts_EOF_forever:
  "Next S it = (Inl EOF, it) \<Longrightarrow> Nexts S n it = (replicate n (Inl EOF), it)"
  by (induction n) simp_all

subsection \<open>What compute leaves in the cache\<close>

lemma accumulate_append:
  "accumulate c sel b (rs @ rs') =
     (case accumulate c sel b rs of
        (Some e, b1) \<Rightarrow> (Some e, b1)
      | (None, b1) \<Rightarrow> accumulate c sel b1 rs')"
  by (induction rs arbitrary: b) (auto split: prod.splits option.splits)

lemma accumulate_prefix_ok:
  "fst (accumulate c sel b (rs @ rs')) = None \<Longrightarrow> fst (accumulate c sel b rs) = None"
  by (auto simp add: accumulate_append split: prod.splits option.splits)

lemma accumulate_snoc_ok:
  assumes "fst (accumulate c sel b (rs @ [r])) = None"
  shows "updateBuffers c (snd (accumulate c sel b rs)) sel r = (None, snd (accumulate c sel b (rs @ [r])))"
  using assms
  by (auto simp add: accumulate_append split: prod.splits option.splits)

lemma group_rows_append:
  "group_rows S c grp (xs @ ys) k = group_rows S c grp xs k @ group_rows S c grp ys k"
  by (simp add: group_rows_def)

lemma group_rows_unseen:
  assumes "map (groupingKey S c grp) dr = map Inr dk" and "k \<notin> set dk"
  shows "group_rows S c grp dr k = []"
proof -
  have "\<forall>r \<in> set dr. groupingKey S c grp r \<noteq> Inr k"
  proof
    fix r assume "r \<in> set dr"
    then have "groupingKey S c grp r \<in> set (map (groupingKey S c grp) dr)" by simp
    then have "groupingKey S c grp r \<in> Inr ` set dk" using assms(1) by simp
    then show "groupingKey S c grp r \<noteq> Inr k" using assms(2) by auto
  qed
  then show ?thesis by (simp add: group_rows_def)
qed

lemma compute_group_mem:
  "HasAvailableMemory c \<Longrightarrow>
     compute_group c sel aggs ks key =
       (case aggs key of
          Some b \<Rightarrow> (None, aggs, ks)
        | None \<Rightarrow> (None, aggs(key \<mapsto> map fillBuffer sel), ks @ [key]))"
  by (simp add: compute_group_def cache_Get_def cache_Put_def Let_def split: option.splits)

lemma compute_loop_groups:
  assumes mem: "HasAvailableMemory c"
    and rows: "map (groupingKey S c grp) rows = map Inr ks"
    and seen: "map (groupingKey S c grp) dr = map Inr dk"
    and keys0: "keys0 = first_appearance dk"
    and aggs: "\<forall>k. aggs k =
        (if k \<in> set dk
         then Some (snd (accumulate c sel (map fillBuffer sel) (group_rows S c grp dr k)))
         else None)"
    and ok: "\<forall>k. fst (accumulate c sel (map fillBuffer sel) (group_rows S c grp (dr @ rows) k)) = None"
  shows "compute_loop S c sel grp (map Inr rows) aggs keys0 =
     (None, [],
      (\<lambda>k. if k \<in> set (dk @ ks)
           then Some (snd (accumulate c sel (map fillBuffer sel) (group_rows S c grp (dr @ rows) k)))
           else None),
      first_appearance (dk @ ks))"
  using rows seen keys0 aggs ok
proof (induction rows arbitrary: ks dr dk keys0 aggs)
  case Nil
  then have "aggs = (\<lambda>k. if k \<in> set dk
           then Some (snd (accumulate c sel (map fillBuffer sel) (group_rows S c grp dr k)))
           else None)"
    by auto
  with Nil show ?case by (simp cong del: if_weak_cong)
next
  case (Cons r rows)
  let ?fresh = "map fillBuffer sel"
  from Cons.prems(1) obtain k ks' where ks: "ks = k # ks'"
    and key: "groupingKey S c grp r = Inr k"
    and rest: "map (groupingKey S c grp) rows = map Inr ks'"
    by (cases ks) auto
  define b where "b = snd (accumulate c sel ?fresh (group_rows S c grp dr k))"
  define aggs1 where "aggs1 = (if k \<in> set dk then aggs else aggs(k \<mapsto> ?fresh))"
  define keys1 where "keys1 = (if k \<in> set dk then keys0 else keys0 @ [k])"
  have cg: "compute_group c sel aggs keys0 k = (None, aggs1, keys1)"
    using Cons.prems(4) by (simp add: compute_group_mem [OF mem] aggs1_def keys1_def)
  have get: "cache_Get aggs1 k = Inr b"
  proof (cases "k \<in> set dk")
    case True
    then show ?thesis using Cons.prems(4) by (simp add: cache_Get_def aggs1_def b_def)
  next
    case False
    then have "group_rows S c grp dr k = []"
      using group_rows_unseen [OF Cons.prems(2)] by simp
    then show ?thesis using False by (simp add: cache_Get_def aggs1_def b_def)
  qed
  have gr: "group_rows S c grp (dr @ [r]) k = group_rows S c grp dr k @ [r]"
    using key by (simp add: group_rows_def)
  have "fst (accumulate c sel ?fresh (group_rows S c grp ((dr @ [r]) @ rows) k)) = None"
    using Cons.prems(5) by simp
  then have "fst (accumulate c sel ?fresh (group_rows S c grp (dr @ [r]) k)) = None"
    unfolding group_rows_append [of S c grp "dr @ [r]" rows] by (rule accumulate_prefix_ok)
  then have upd: "updateBuffers c b sel r =
      (None, snd (accumulate c sel ?fresh (group_rows S c grp (dr @ [r]) k)))"
    unfolding gr b_def by (rule accumulate_snoc_ok)
  define b1 where "b1 = snd (accumulate c sel ?fresh (group_rows S c grp (dr @ [r]) k))"
  have step: "compute_loop S c sel grp (map Inr (r # rows)) aggs keys0 =
      compute_loop S c sel grp (map Inr rows) (aggs1(k \<mapsto> b1)) keys1"
    using key cg get upd by (simp add: b1_def)
  have seen': "map (groupingKey S c grp) (dr @ [r]) = map Inr (dk @ [k])"
    using Cons.prems(2) key by simp
  have keys': "keys1 = first_appearance (dk @ [k])"
    using Cons.prems(3) by (simp add: keys1_def first_appearance_snoc)
  have aggs': "\<forall>k'. (aggs1(k \<mapsto> b1)) k' =
        (if k' \<in> set (dk @ [k])
         then Some (snd (accumulate c sel ?fresh (group_rows S c grp (dr @ [r]) k')))
         else None)"
  proof
    fix k'
    show "(aggs1(k \<mapsto> b1)) k' =
        (if k' \<in> set (dk @ [k])
         then Some (snd (accumulate c sel ?fresh (group_rows S c grp (dr @ [r]) k')))
         else None)"
    proof (cases "k' = k")
      case True
      then show ?thesis by (simp add: b1_def)
    next
      case False
      then have "group_rows S c grp (dr @ [r]) k' = group_rows S c grp dr k'"
        using key by (simp add: group_rows_def)
      moreover have "aggs1 k' = aggs k'"
        using False by (simp add: aggs1_def)
      ultimately show ?thesis
        using False Cons.prems(4) by simp
    qed
  qed
  have ok': "\<forall>k. fst (accumulate c sel ?fresh (group_rows S c grp ((dr @ [r]) @ rows) k)) = None"
    using Cons.prems(5) by simp
  have "compute_loop S c sel grp (map Inr rows) (aggs1(k \<mapsto> b1)) keys1 =
     (None, [],
      (\<lambda>k'. if k' \<in> set ((dk @ [k]) @ ks')
           then Some (snd (accumulate c sel ?fresh (group_rows S c grp ((dr @ [r]) @ rows) k')))
           else None),
      first_appearance ((dk @ [k]) @ ks'))"
    by (rule Cons.IH [OF rest seen' keys' aggs' ok'])
  then have "compute_loop S c sel grp (map Inr rows) (aggs1(k \<mapsto> b1)) keys1 =
     (None, [],
      (\<lambda>k'. if k' \<in> set (dk @ k # ks')
           then Some (snd (accumulate c sel ?fresh (group_rows S c grp (dr @ r # rows) k')))
           else None),
      first_appearance (dk @ k # ks'))"
    unfolding append_assoc append_Cons append_Nil .
  with step show ?case
    unfolding ks by (rule trans)
qed

subsection \<open>Emitting the groups\<close>

lemma grouping_Nexts_emit:
  assumes "aggregations i = Some aggs" and "\<forall>k \<in> set (keys i). aggs k = Some (B k)"
    and "length (keys i) - pos i = n" and "pos i \<le> length (keys i)"
  shows "fst (Nexts S (Suc n) (GroupByGroupingIter i)) =
     map (\<lambda>k. evalBuffers (ctx i) (B k) (selectedExprs i)) (drop (pos i) (keys i)) @ [Inl EOF]"
  using assms
proof (induction n arbitrary: i)
  case 0
  then show ?case by (simp add: grouping_Next_computed)
next
  case (Suc n)
  let ?i' = "i\<lparr>pos := pos i + 1\<rparr>"
  have lt: "pos i < length (keys i)" using Suc.prems(3) by simp
  then have "aggs (keys i ! pos i) = Some (B (keys i ! pos i))"
    using Suc.prems(2) by simp
  then have nx: "groupByGroupingIter_Next S i =
      (evalBuffers (ctx i) (B (keys i ! pos i)) (selectedExprs i), ?i')"
    using lt Suc.prems(1) by (simp add: grouping_Next_computed cache_Get_def)
  have "fst (Nexts S (Suc n) (GroupByGroupingIter ?i')) =
     map (\<lambda>k. evalBuffers (ctx ?i') (B k) (selectedExprs ?i')) (drop (pos ?i') (keys ?i')) @ [Inl EOF]"
    using Suc.prems lt by (intro Suc.IH) simp_all
  then have rest: "fst (Nexts S (Suc n) (GroupByGroupingIter ?i')) =
     map (\<lambda>k. evalBuffers (ctx i) (B k) (selectedExprs i)) (drop (Suc (pos i)) (keys i)) @ [Inl EOF]"
    by simp
  have "drop (pos i) (keys i) = keys i ! pos i # drop (Suc (pos i)) (keys i)"
    using lt by (simp add: Cons_nth_drop_Suc)
  then show ?case
    using nx rest by (simp add: split_beta)
qed

lemma groupingKey_loop_vals:
  "map (\<lambda>e. Eval e c row) exprs = map Inr vs \<Longrightarrow>
     groupingKey_loop S c exprs row vals = Inr (vals @ map S vs)"
proof (induction exprs arbitrary: vals vs)
  case Nil
  then show ?case by simp
next
  case (Cons e exprs)
  then obtain v vs' where "vs = v # vs'" "Eval e c row = Inr v"
    "map (\<lambda>e. Eval e c row) exprs = map Inr vs'"
    by (cases vs) auto
  then show ?case using Cons.IH [of vs' "vals @ [S v]"] by simp
qed

lemma groupingKey_Checksum:
  "map (\<lambda>e. Eval e c row) exprs = map Inr vs \<Longrightarrow>
     groupingKey S c exprs row = Inr (Checksum (bytes (strings_Join (map S vs) '','')) table)"
  by (simp add: groupingKey_def groupingKey_loop_vals)

lemma groups_ok_all:
  assumes keys: "map (groupingKey S c grp) rows = map Inr ks"
    and ok: "\<forall>k \<in> set ks. \<exists>out. group_row c sel (group_rows S c grp rows k) = Inr out"
  shows "fst (accumulate c sel (map fillBuffer sel) (group_rows S c grp rows k)) = None"
proof (cases "k \<in> set ks")
  case True
  then obtain out where "group_row c sel (group_rows S c grp rows k) = Inr out"
    using ok by blast
  then show ?thesis
    by (auto simp add: group_row_def split: prod.splits option.splits)
next
  case False
  then have "group_rows S c grp rows k = []"
    using group_rows_unseen [OF keys] by simp
  then show ?thesis by simp
qed

lemma compute_new:
  assumes mem: "HasAvailableMemory c"
    and keys: "map (groupingKey S c grp) rows = map Inr ks"
    and ok: "\<forall>k \<in> set ks. \<exists>out. group_row c sel (group_rows S c grp rows k) = Inr out"
  shows "compute S ((newGroupByGroupingIter c sel grp (map Inr rows))\<lparr>aggregations := Some NewHistoryCache\<rparr>) =
     (None, (newGroupByGroupingIter c sel grp (map Inr rows))
        \<lparr>child := [],
         aggregations := Some (\<lambda>k. if k \<in> set ks
             then Some (snd (accumulate c sel (map fillBuffer sel) (group_rows S c grp rows k)))
             else None),
         keys := first_appearance ks\<rparr>)"
proof -
  have "compute_loop S c sel grp (map Inr rows) Map.empty (first_appearance []) =
     (None, [],
      (\<lambda>k. if k \<in> set ([] @ ks)
           then Some (snd (accumulate c sel (map fillBuffer sel) (group_rows S c grp ([] @ rows) k)))
           else None),
      first_appearance ([] @ ks))"
    using groups_ok_all [OF keys ok]
    by (intro compute_loop_groups [OF mem keys]) simp_all
  then have "compute_loop S c sel grp (map Inr rows) Map.empty [] =
     (None, [],
      (\<lambda>k. if k \<in> set ks
           then Some (snd (accumulate c sel (map fillBuffer sel) (group_rows S c grp rows k)))
           else None),
      first_appearance ks)"
    unfolding append_Nil first_appearance.simps .
  then show ?thesis
    by (simp add: compute_def newGroupByGroupingIter_def NewHistoryCache_def)
qed

lemma grouping_Nexts_new:
  assumes mem: "HasAvailableMemory c"
    and keys: "map (groupingKey S c grp) rows = map Inr ks"
    and ok: "\<forall>k \<in> set ks. \<exists>out. group_row c sel (group_rows S c grp rows k) = Inr out"
  shows "fst (Nexts S (Suc (length (first_appearance ks)))
            (GroupByGroupingIter (newGroupByGroupingIter c sel grp (map Inr rows)))) =
     map (\<lambda>k. group_row c sel (group_rows S c grp rows k)) (first_appearance ks) @ [Inl EOF]"
proof -
  let ?i = "newGroupByGroupingIter c sel grp (map Inr rows)"
  let ?B = "\<lambda>k. snd (accumulate c sel (map fillBuffer sel) (group_rows S c grp rows k))"
  let ?aggs = "\<lambda>k. if k \<in> set ks then Some (?B k) else None"
  let ?i1 = "?i\<lparr>child := [], aggregations := Some ?aggs, keys := first_appearance ks\<rparr>"
  have c: "compute S (?i\<lparr>aggregations := Some NewHistoryCache\<rparr>) = (None, ?i1)"
    by (rule compute_new [OF mem keys ok])
  have "aggregations ?i = None" by (simp add: newGroupByGroupingIter_def)
  then have "groupByGroupingIter_Next S ?i = groupByGroupingIter_Next S ?i1"
    using c by (rule grouping_Next_first)
  then have first: "Nexts S (Suc (length (first_appearance ks))) (GroupByGroupingIter ?i) =
      Nexts S (Suc (length (first_appearance ks))) (GroupByGroupingIter ?i1)"
    by (simp only: Nexts.simps Next.simps)
  have f: "aggregations ?i1 = Some ?aggs" "keys ?i1 = first_appearance ks" "pos ?i1 = 0"
    "ctx ?i1 = c" "selectedExprs ?i1 = sel"
    by (simp_all add: newGroupByGroupingIter_def)
  have "fst (Nexts S (Suc (length (first_appearance ks))) (GroupByGroupingIter ?i1)) =
      map (\<lambda>k. evalBuffers (ctx ?i1) (?B k) (selectedExprs ?i1)) (drop (pos ?i1) (keys ?i1)) @ [Inl EOF]"
  proof (rule grouping_Nexts_emit [where aggs = ?aggs])
    show "aggregations ?i1 = Some ?aggs" by (rule f(1))
    show "\<forall>k \<in> set (keys ?i1). ?aggs k = Some (?B k)"
      unfolding f(2) by (simp add: set_first_appearance)
    show "length (keys ?i1) - pos ?i1 = length (first_appearance ks)"
      unfolding f(2,3) by simp
    show "pos ?i1 \<le> length (keys ?i1)"
      unfolding f(3) by simp
  qed
  then have emit: "fst (Nexts S (Suc (length (first_appearance ks))) (GroupByGroupingIter ?i1)) =
      map (\<lambda>k. evalBuffers c (?B k) sel) (first_appearance ks) @ [Inl EOF]"
    unfolding f(2,3,4,5) drop_0 .
  have "map (\<lambda>k. evalBuffers c (?B k) sel) (first_appearance ks) =
      map (\<lambda>k. group_row c sel (group_rows S c grp rows k)) (first_appearance ks)"
  proof (rule map_cong [OF refl])
    fix k assume "k \<in> set (first_appearance ks)"
    have "fst (accumulate c sel (map fillBuffer sel) (group_rows S c grp rows k)) = None"
      by (rule groups_ok_all [OF keys ok])
    then show "evalBuffers c (?B k) sel = group_row c sel (group_rows S c grp rows k)"
      by (auto simp add: group_row_def split: prod.splits)
  qed
  with first emit show ?thesis
    by (simp only:)
qed

lemma all_Inr_map: "\<forall>x \<in> set xs. \<exists>y. f x = Inr y \<Longrightarrow> \<exists>ys. map Inr ys = map f xs"
proof (induction xs)
  case Nil
  then show ?case by simp
next
  case (Cons x xs)
  then obtain y ys where "f x = Inr y" "map Inr ys = map f xs"
    by auto
  then have "map Inr (y # ys) = map f (x # xs)"
    by simp
  then show ?case by blast
qed

lemma first_appearance_map_cong:
  assumes "\<forall>x \<in> set xs. \<forall>y \<in> set xs. (f x = f y) = (g x = g y)"
    and "\<forall>x \<in> set xs. B (f x) = C (g x)"
  shows "map B (first_appearance (map f xs)) = map C (first_appearance (map g xs))"
  using assms
proof (induction "length xs" arbitrary: xs rule: less_induct)
  case less
  show ?case
  proof (cases xs)
    case Nil
    then show ?thesis by simp
  next
    case (Cons x xs')
    have same: "filter (\<lambda>y. f y \<noteq> f x) xs' = filter (\<lambda>y. g y \<noteq> g x) xs'"
      using less.prems(1) Cons by (intro filter_cong) auto
    let ?ys = "filter (\<lambda>y. g y \<noteq> g x) xs'"
    have sub: "set ?ys \<subseteq> set xs"
      using Cons by auto
    have shorter: "length ?ys < length xs"
      using Cons by (simp add: le_imp_less_Suc)
    have "map B (first_appearance (map f ?ys)) = map C (first_appearance (map g ?ys))"
    proof (rule less.hyps [OF shorter])
      show "\<forall>x \<in> set ?ys. \<forall>y \<in> set ?ys. (f x = f y) = (g x = g y)"
        using less.prems(1) sub by blast
      show "\<forall>x \<in> set ?ys. B (f x) = C (g x)"
        using less.prems(2) sub by blast
    qed
    moreover have "filter (\<lambda>y. y \<noteq> f x) (map f xs') = map f (filter (\<lambda>y. f y \<noteq> f x) xs')"
      by (simp add: filter_map comp_def)
    moreover have "filter (\<lambda>y. y \<noteq> g x) (map g xs') = map g ?ys"
      by (simp add: filter_map comp_def)
    moreover have "B (f x) = C (g x)"
      using less.prems(2) Cons by simp
    ultimately show ?thesis
      using Cons same by simp
  qed
qed

lemma first_appearance_map_Inr: "first_appearance (map Inr ks) = map Inr (first_appearance ks)"
  using first_appearance_map_cong [of ks Inr "\<lambda>k. k" "\<lambda>k. k" Inr]
  by simp

lemma length_first_appearance: "length (first_appearance xs) = card (set xs)"
  using distinct_card [OF distinct_first_appearance, of xs] by (simp add: set_first_appearance)

lemma groupingKey_loop_cong:
  "grouping_values c grp r = grouping_values c grp r' \<Longrightarrow>
     groupingKey_loop S c grp r vals = groupingKey_loop S c grp r' vals"
  by (induction grp arbitrary: vals) (simp_all add: grouping_values_def split: sum.splits)

lemma groupingKey_cong:
  "grouping_values c grp r = grouping_values c grp r' \<Longrightarrow>
     groupingKey S c grp r = groupingKey S c grp r'"
  using groupingKey_loop_cong [of c grp r r' S "[]"] by (simp add: groupingKey_def)

lemma groups_by_grouping_values:
  assumes keys: "map (groupingKey S c grp) rows = map Inr ks"
    and nocoll: "\<forall>r \<in> set rows. \<forall>r' \<in> set rows.
        groupingKey S c grp r = groupingKey S c grp r' \<longrightarrow>
        grouping_values c grp r = grouping_values c grp r'"
  shows "map (\<lambda>k. A (group_rows S c grp rows k)) (first_appearance ks) =
      map (\<lambda>vs. A (rows_of_key c grp rows vs)) (first_appearance (map (grouping_values c grp) rows))"
proof -
  let ?f = "groupingKey S c grp"
  let ?g = "grouping_values c grp"
  let ?B = "\<lambda>fk. A (filter (\<lambda>r. ?f r = fk) rows)"
  let ?C = "\<lambda>vs. A (filter (\<lambda>r. ?g r = vs) rows)"
  have eq: "\<forall>x \<in> set rows. \<forall>y \<in> set rows. (?f x = ?f y) = (?g x = ?g y)"
    using nocoll groupingKey_cong [of c grp _ _ S] by blast
  have BC: "\<forall>x \<in> set rows. ?B (?f x) = ?C (?g x)"
  proof
    fix x assume x: "x \<in> set rows"
    have "filter (\<lambda>r. ?f r = ?f x) rows = filter (\<lambda>r. ?g r = ?g x) rows"
      using eq x by (intro filter_cong) auto
    then show "?B (?f x) = ?C (?g x)" by simp
  qed
  have "map ?B (first_appearance (map ?f rows)) = map ?C (first_appearance (map ?g rows))"
    using eq BC by (rule first_appearance_map_cong)
  then have "map ?B (map Inr (first_appearance ks)) = map ?C (first_appearance (map ?g rows))"
    by (simp only: keys first_appearance_map_Inr)
  then show ?thesis
    by (simp add: group_rows_def rows_of_key_def comp_def)
qed

text \<open>
  Claim C1, amended: for a GroupBy with a non-empty list of group-by expressions over a
  finite sequence of input rows, the iterator \<open>RowIter\<close> returns emits exactly one row
  for each distinct checksum (\<open>groupingKey\<close>) of the grouping keys of the input, in
  the order in which the checksums first appear; the row of a checksum is the evaluation
  of the buffers updated with the rows of that checksum. When no two rows of the input
  with different grouping keys have the same checksum, this is exactly one row for each
  distinct grouping key, in the order in which the grouping keys first appear in the
  input, each row computed from the rows of its grouping key. The hypotheses say that
  nothing fails on the way: the key of every row can be computed, the cache accepts the
  buffers, and the updates and the final evaluation of every group succeed.
\<close>

theorem GroupBy_groups_in_first_appearance_order:
  assumes grp: "GroupByExprs p \<noteq> []"
    and child: "child_RowIter (Child p) c [] = Inr (map Inr rows)"
    and mem: "HasAvailableMemory c"
    and keys: "map (groupingKey S c (GroupByExprs p)) rows = map Inr ks"
    and ok: "\<forall>k \<in> set ks. \<exists>out.
        group_row c (SelectedExprs p) (group_rows S c (GroupByExprs p) rows k) = Inr out"
  shows "\<exists>it outs.
      GroupBy_RowIter child_RowIter p c row = Inr it \<and>
      fst (Nexts S (Suc (length outs)) it) = map Inr outs @ [Inl EOF] \<and>
      length outs = card (set ks) \<and>
      map Inr outs =
        map (\<lambda>k. group_row c (SelectedExprs p) (group_rows S c (GroupByExprs p) rows k))
          (first_appearance ks) \<and>
      ((\<forall>r \<in> set rows. \<forall>r' \<in> set rows.
          groupingKey S c (GroupByExprs p) r = groupingKey S c (GroupByExprs p) r' \<longrightarrow>
          grouping_values c (GroupByExprs p) r = grouping_values c (GroupByExprs p) r') \<longrightarrow>
        length outs = card (grouping_values c (GroupByExprs p) ` set rows) \<and>
        map Inr outs =
          map (\<lambda>vs. group_row c (SelectedExprs p) (rows_of_key c (GroupByExprs p) rows vs))
            (first_appearance (map (grouping_values c (GroupByExprs p)) rows)))"
proof -
  let ?K = "first_appearance ks"
  let ?f = "\<lambda>k. group_row c (SelectedExprs p) (group_rows S c (GroupByExprs p) rows k)"
  let ?V = "first_appearance (map (grouping_values c (GroupByExprs p)) rows)"
  let ?h = "\<lambda>vs. group_row c (SelectedExprs p) (rows_of_key c (GroupByExprs p) rows vs)"
  let ?it = "GroupByGroupingIter
      (newGroupByGroupingIter c (SelectedExprs p) (GroupByExprs p) (map Inr rows))"
  have it: "GroupBy_RowIter child_RowIter p c row = Inr ?it"
    using grp child by (simp add: GroupBy_RowIter_def)
  have "\<forall>k \<in> set ?K. \<exists>out. ?f k = Inr out"
    using ok by (simp add: set_first_appearance)
  then have "\<exists>outs. map Inr outs = map ?f ?K"
    by (rule all_Inr_map)
  then obtain outs where outs: "map Inr outs = map ?f ?K" ..
  have "length (map Inr outs :: (error + 'a Row) list) = length (map ?f ?K)"
    by (simp only: outs)
  then have len: "length outs = length ?K"
    by simp
  have card: "length ?K = card (set ks)"
    by (rule length_first_appearance)
  have "fst (Nexts S (Suc (length ?K)) ?it) = map ?f ?K @ [Inl EOF]"
    by (rule grouping_Nexts_new [OF mem keys ok])
  then have run: "fst (Nexts S (Suc (length outs)) ?it) = map Inr outs @ [Inl EOF]"
    by (simp only: len outs)
  show ?thesis
  proof (intro exI conjI impI)
    show "GroupBy_RowIter child_RowIter p c row = Inr ?it" by (rule it)
    show "fst (Nexts S (Suc (length outs)) ?it) = map Inr outs @ [Inl EOF]" by (rule run)
    show "length outs = card (set ks)" using len card by simp
    show "map Inr outs = map ?f ?K" by (rule outs)
  next
    assume nocoll: "\<forall>r \<in> set rows. \<forall>r' \<in> set rows.
          groupingKey S c (GroupByExprs p) r = groupingKey S c (GroupByExprs p) r' \<longrightarrow>
          grouping_values c (GroupByExprs p) r = grouping_values c (GroupByExprs p) r'"
    have fh: "map ?f ?K = map ?h ?V"
      using keys nocoll by (rule groups_by_grouping_values)
    then have "length (map ?f ?K) = length (map ?h ?V)"
      by (simp only:)
    then have "length ?K = length ?V"
      by simp
    then have "length outs = card (set (map (grouping_values c (GroupByExprs p)) rows))"
      using len by (simp only: length_first_appearance)
    then show "length outs = card (grouping_values c (GroupByExprs p) ` set rows)"
      by simp
    show "map Inr outs = map ?h ?V"
      using outs fh by (simp only:)
  qed
qed

subsection \<open>Keys and groups of the concrete rows\<close>

lemma FormatUint_numeral:
  "FormatUint (numeral k) =
     (if (numeral k :: nat) < 10 then [digit_char (numeral k)]
      else FormatUint (numeral k div 10) @ [digit_char (numeral k mod 10)])"
  by (rule FormatUint.simps)

lemma FormatUint_Suc_0: "FormatUint (Suc 0) = ''1''"
  by (simp add: FormatUint.simps [of "Suc 0"] digit_char_def)

lemma MakeTable_bits_numeral:
  "MakeTable_bits (numeral k) poly crc =
     MakeTable_bits (pred_numeral k) poly
       (if crc AND 1 = 1 then drop_bit 1 crc XOR poly else drop_bit 1 crc)"
  by (simp add: numeral_eq_Suc)

lemma minus_one_word64: "(- 1 :: 64 word) = 18446744073709551615"
  by (simp add: word_eq_iff_unsigned [where ?'a = nat] unsigned_minus_1_eq_mask mask_eq_exp_minus_1)

lemma Checksum_table:
  "Checksum data table = NOT (crc64_update 18446744073709551615 (MakeTable ISO) data)"
  by (simp add: Checksum_def table_def minus_one_word64)

lemmas crc_eval = Checksum_table MakeTable_def MakeTable_bits_numeral ISO_def bytes_def

lemmas key_eval = groupingKey_def column_a_def column_b_def Sprintf_int64_def FormatInt_def FormatUint_numeral
  FormatUint_Suc_0 digit_char_def crc_eval

lemma key_1_10: "groupingKey Sprintf_int64 query7 [column_a] [Some 1, Some 10] = Inr 0x4320000000000000"
  by (simp add: key_eval)

lemma key_1_20: "groupingKey Sprintf_int64 query7 [column_a] [Some 1, Some 20] = Inr 0x4320000000000000"
  by (simp add: key_eval)

lemma key_2_30: "groupingKey Sprintf_int64 query7 [column_a] [Some 2, Some 30] = Inr 0x41f0000000000000"
  by (simp add: key_eval)

lemmas keys_t = key_1_10 key_1_20 key_2_30

lemmas run_eval = group_row_def updateBuffers_def evalBuffers_def sum_b_def
  count_rows_def add_null_def column_a_def column_b_def

lemma group_1: "group_row query7 [column_a, sum_b]
     (group_rows Sprintf_int64 query7 [column_a] rows_t 0x4320000000000000) = Inr [Some 1, Some 30]"
  by (simp add: rows_t_def group_rows_def keys_t) (simp add: run_eval)

lemma group_2: "group_row query7 [column_a, sum_b]
     (group_rows Sprintf_int64 query7 [column_a] rows_t 0x41f0000000000000) = Inr [Some 2, Some 30]"
  by (simp add: rows_t_def group_rows_def keys_t) (simp add: run_eval)

lemma grouping_values_t:
  "map (grouping_values query7 [column_a]) rows_t = [[Inr (Some 1)], [Inr (Some 1)], [Inr (Some 2)]]"
  by (simp add: grouping_values_def rows_t_def column_a_def)

lemma key_group_1: "group_row query7 [column_a, sum_b]
     (rows_of_key query7 [column_a] rows_t [Inr (Some 1)]) = Inr [Some 1, Some 30]"
  by (simp add: rows_t_def rows_of_key_def grouping_values_def column_a_def) (simp add: run_eval)

lemma key_group_2: "group_row query7 [column_a, sum_b]
     (rows_of_key query7 [column_a] rows_t [Inr (Some 2)]) = Inr [Some 2, Some 30]"
  by (simp add: rows_t_def rows_of_key_def grouping_values_def column_a_def) (simp add: run_eval)

text \<open>
  Scenario S1 of the spec: \<open>SELECT a, SUM(b) FROM t GROUP BY a\<close> gives (1,30), (2,30),
  the rows of the grouping keys 1 and 2 in this order.
\<close>

theorem GroupBy_groups_in_first_appearance_order_witness:
  "first_appearance (map (grouping_values query7 [column_a]) rows_t) =
     [[Inr (Some 1)], [Inr (Some 2)]] \<and>
   (\<exists>it. GroupBy_RowIter table_rows select_a_sum_b query7 [] = Inr it \<and>
     fst (Nexts Sprintf_int64 3 it) = [Inr [Some 1, Some 30], Inr [Some 2, Some 30], Inl EOF])"
proof -
  let ?ks = "[0x4320000000000000, 0x4320000000000000, 0x41f0000000000000] :: 64 word list"
  have grp: "GroupByExprs select_a_sum_b \<noteq> []"
    by (simp add: select_a_sum_b_def)
  have child: "table_rows (Child select_a_sum_b) query7 [] = Inr (map Inr rows_t)"
    by (simp add: table_rows_def)
  have mem: "HasAvailableMemory query7"
    by (simp add: query7_def)
  have keys: "map (groupingKey Sprintf_int64 query7 (GroupByExprs select_a_sum_b)) rows_t = map Inr ?ks"
    by (simp add: select_a_sum_b_def rows_t_def keys_t)
  have ok: "\<forall>k \<in> set ?ks. \<exists>out. group_row query7 (SelectedExprs select_a_sum_b)
      (group_rows Sprintf_int64 query7 (GroupByExprs select_a_sum_b) rows_t k) = Inr out"
    by (simp add: select_a_sum_b_def group_1 group_2)
  have nocoll: "\<forall>r \<in> set rows_t. \<forall>r' \<in> set rows_t.
      groupingKey Sprintf_int64 query7 (GroupByExprs select_a_sum_b) r =
        groupingKey Sprintf_int64 query7 (GroupByExprs select_a_sum_b) r' \<longrightarrow>
      grouping_values query7 (GroupByExprs select_a_sum_b) r =
        grouping_values query7 (GroupByExprs select_a_sum_b) r'"
    by (simp add: select_a_sum_b_def rows_t_def keys_t) (simp add: grouping_values_def column_a_def)
  have fa: "first_appearance (map (grouping_values query7 [column_a]) rows_t) =
      [[Inr (Some 1)], [Inr (Some 2)]]"
    by (simp add: grouping_values_t)
  obtain it outs where it: "GroupBy_RowIter table_rows select_a_sum_b query7 [] = Inr it"
    and run: "fst (Nexts Sprintf_int64 (Suc (length outs)) it) = map Inr outs @ [Inl EOF]"
    and outs: "map Inr outs =
        map (\<lambda>vs. group_row query7 (SelectedExprs select_a_sum_b)
               (rows_of_key query7 (GroupByExprs select_a_sum_b) rows_t vs))
          (first_appearance (map (grouping_values query7 (GroupByExprs select_a_sum_b)) rows_t))"
    using GroupBy_groups_in_first_appearance_order [where p = select_a_sum_b and child_RowIter = table_rows and c = query7
        and rows = rows_t and S = Sprintf_int64 and ks = ?ks and row = "[]",
        OF grp child mem keys ok] nocoll
    by blast
  have "map Inr outs = [Inr [Some 1, Some 30], Inr [Some 2, Some 30] :: error + 64 word Row]"
    unfolding outs by (simp add: select_a_sum_b_def fa key_group_1 key_group_2)
  then have "outs = [[Some 1, Some 30], [Some 2, Some 30]]"
    by (auto simp add: map_eq_Cons_conv)
  with it run fa show ?thesis
    by (simp add: numeral_3_eq_3 del: Nexts.simps)
qed

lemma key_A: "groupingKey Sprintf_int64 query7 [column_a, column_b] row_A = Inr 0xc5d44ae4ee8de1e1"
  by (simp add: row_A_def key_eval)

lemma key_B: "groupingKey Sprintf_int64 query7 [column_a, column_b] row_B = Inr 0xc5d44ae4ee8de1e1"
  by (simp add: row_B_def key_eval)

lemma group_AB: "group_row query7 [column_a, column_b, count_rows] [row_A, row_B] =
    Inr [Some 440000000700, Some 400410000000, Some 2]"
  by (simp add: row_A_def row_B_def run_eval)

lemma Nexts_row_A_row_B:
  "fst (Nexts Sprintf_int64 2
       (GroupByGroupingIter (newGroupByGroupingIter query7 [column_a, column_b, count_rows]
          [column_a, column_b] [Inr row_A, Inr row_B]))) =
   [Inr [Some 440000000700, Some 400410000000, Some 2], Inl EOF]"
proof -
  let ?k = "0xc5d44ae4ee8de1e1 :: 64 word"
  have rows: "group_rows Sprintf_int64 query7 [column_a, column_b] [row_A, row_B] ?k = [row_A, row_B]"
    by (simp add: group_rows_def key_A key_B)
  have mem: "HasAvailableMemory query7"
    by (simp add: query7_def)
  have keys: "map (groupingKey Sprintf_int64 query7 [column_a, column_b]) [row_A, row_B] = map Inr [?k, ?k]"
    by (simp add: key_A key_B)
  have ok: "\<forall>k \<in> set [?k, ?k]. \<exists>out. group_row query7 [column_a, column_b, count_rows]
      (group_rows Sprintf_int64 query7 [column_a, column_b] [row_A, row_B] k) = Inr out"
    by (simp add: rows group_AB)
  have "fst (Nexts Sprintf_int64 (Suc (length (first_appearance [?k, ?k])))
       (GroupByGroupingIter (newGroupByGroupingIter query7 [column_a, column_b, count_rows]
          [column_a, column_b] (map Inr [row_A, row_B])))) =
     map (\<lambda>k. group_row query7 [column_a, column_b, count_rows]
            (group_rows Sprintf_int64 query7 [column_a, column_b] [row_A, row_B] k))
       (first_appearance [?k, ?k]) @ [Inl EOF]"
    by (rule grouping_Nexts_new [OF mem keys ok])
  then show ?thesis
    by (simp add: rows group_AB numeral_2_eq_2 del: Nexts.simps)
qed

text \<open>
  Claim C1, as the spec states it: the iterator emits exactly one row for each distinct
  grouping key. It fails on the table of the rows \<open>row_A\<close> = (400000000000, 400000000000)
  and \<open>row_B\<close> = (440000000700, 400410000000), grouped by both columns with the two
  columns and the count of rows selected: the two rows have two distinct grouping keys,
  which have the same checksum, and the iterator emits one row and then ends.
\<close>

theorem GroupBy_merges_two_grouping_keys:
  "GroupByExprs select_a_b_count \<noteq> [] \<and>
   map (grouping_values query7 (GroupByExprs select_a_b_count)) [row_A, row_B] =
     [[Inr (Some 400000000000), Inr (Some 400000000000)],
      [Inr (Some 440000000700), Inr (Some 400410000000)]] \<and>
   card (grouping_values query7 (GroupByExprs select_a_b_count) ` set [row_A, row_B]) = 2 \<and>
   GroupBy_RowIter table_AB select_a_b_count query7 [] =
     Inr (GroupByGroupingIter (newGroupByGroupingIter query7 [column_a, column_b, count_rows]
          [column_a, column_b] [Inr row_A, Inr row_B])) \<and>
   fst (Nexts Sprintf_int64 2
       (GroupByGroupingIter (newGroupByGroupingIter query7 [column_a, column_b, count_rows]
          [column_a, column_b] [Inr row_A, Inr row_B]))) =
     [Inr [Some 440000000700, Some 400410000000, Some 2], Inl EOF]"
proof -
  have v: "map (grouping_values query7 (GroupByExprs select_a_b_count)) [row_A, row_B] =
     [[Inr (Some 400000000000), Inr (Some 400000000000)],
      [Inr (Some 440000000700), Inr (Some 400410000000)]]"
    by (simp add: grouping_values_def select_a_b_count_def row_A_def row_B_def column_a_def
        column_b_def)
  have "grouping_values query7 (GroupByExprs select_a_b_count) ` set [row_A, row_B] =
      set (map (grouping_values query7 (GroupByExprs select_a_b_count)) [row_A, row_B])"
    by simp
  then have c: "card (grouping_values query7 (GroupByExprs select_a_b_count) ` set [row_A, row_B]) = 2"
    by (simp only: v) simp
  have r: "GroupBy_RowIter table_AB select_a_b_count query7 [] =
     Inr (GroupByGroupingIter (newGroupByGroupingIter query7 [column_a, column_b, count_rows]
          [column_a, column_b] [Inr row_A, Inr row_B]))"
    by (simp add: GroupBy_RowIter_def table_AB_def select_a_b_count_def)
  have g: "GroupByExprs select_a_b_count \<noteq> []"
    by (simp add: select_a_b_count_def)
  from g v c r Nexts_row_A_row_B show ?thesis
    by (simp only: simp_thms)
qed

subsection \<open>Empty input and the end of the iteration\<close>

lemma grouping_Next_empty:
  "groupByGroupingIter_Next S (newGroupByGroupingIter c sel grp []) =
     (Inl EOF, (newGroupByGroupingIter c sel grp [])\<lparr>aggregations := Some NewHistoryCache\<rparr>)"
  by (simp add: groupByGroupingIter_Next_def compute_def newGroupByGroupingIter_def)




text \<open>
  Claim C4, as the spec states it: once \<open>Next\<close> has returned the end or an error, every
  later call returns the same outcome. It fails for an error: \<open>groupByIter\<close> sets
  \<open>done\<close> on its first call, so when the child fails with a read error the first \<open>Next\<close>
  returns that error and the second returns the end.
\<close>

theorem Next_after_error_returns_end:
  "fst (Nexts Sprintf_int64 2
     (GroupByIter (newGroupByIter query7 [count_rows] [Inl (Errorf ''read failed'')]))) =
   [Inl (Errorf ''read failed''), Inl EOF]"
  by (simp add: numeral_2_eq_2 groupByIter_Next_def newGroupByIter_def count_rows_def)

text \<open>
  Claim C4, amended: once \<open>Next\<close> of a group-by iterator has returned the end, every
  later call returns the end and leaves the iterator as it is, provided no expression of
  the iterator reports \<open>io.EOF\<close> as an error of its own; and the iterator without
  grouping returns the end on every call after its first, whatever the first returned.
  Nothing is promised after an error of the iterator with grouping.
\<close>

theorem Next_end_is_final:
  assumes "Next S it = (r, it1)"
  shows "((r = Inl EOF \<and> iter_never_EOF it) \<or> (\<exists>i. it = GroupByIter i)) \<longrightarrow>
           Nexts S n it1 = (replicate n (Inl EOF), it1)"
proof
  assume h: "(r = Inl EOF \<and> iter_never_EOF it) \<or> (\<exists>i. it = GroupByIter i)"
  have "Next S it1 = (Inl EOF, it1)"
  proof (cases it)
    case (GroupByIter i)
    then obtain i1 where i1: "groupByIter_Next i = (r, i1)" "it1 = GroupByIter i1"
      using assms by (cases "groupByIter_Next i") auto
    then have "done' i1" using groupByIter_Next_done by blast
    then show ?thesis using i1 by (simp add: groupByIter_Next_when_done)
  next
    case (GroupByGroupingIter i)
    with h have r: "r = Inl EOF" and nv: "iter_never_EOF it" by auto
    show ?thesis
    proof (rule Next_EOF_sticky)
      show "case it of GroupByIter i \<Rightarrow> True
           | GroupByGroupingIter i \<Rightarrow>
               (\<forall>e \<in> set (selectedExprs i). never_EOF e) \<and> (\<forall>e \<in> set (groupByExprs i). never_EOF e)"
        using nv GroupByGroupingIter by simp
      show "Next S it = (Inl EOF, it1)" using assms r by simp
    qed
  qed
  then show "Nexts S n it1 = (replicate n (Inl EOF), it1)"
    by (rule Nexts_EOF_forever)
qed

lemma never_EOF_fixtures: "never_EOF column_a" "never_EOF column_b" "never_EOF sum_b" "never_EOF count_rows"
  by (simp_all add: column_a_def column_b_def sum_b_def count_rows_def split: list.splits)

theorem Next_end_is_final_witness:
  "Next Sprintf_int64 (GroupByGroupingIter (newGroupByGroupingIter query7 [column_a, sum_b] [column_a] [])) =
     (Inl EOF, GroupByGroupingIter
        ((newGroupByGroupingIter query7 [column_a, sum_b] [column_a] [])\<lparr>aggregations := Some NewHistoryCache\<rparr>)) \<and>
   Nexts Sprintf_int64 3 (GroupByGroupingIter
        ((newGroupByGroupingIter query7 [column_a, sum_b] [column_a] [])\<lparr>aggregations := Some NewHistoryCache\<rparr>)) =
     ([Inl EOF, Inl EOF, Inl EOF], GroupByGroupingIter
        ((newGroupByGroupingIter query7 [column_a, sum_b] [column_a] [])\<lparr>aggregations := Some NewHistoryCache\<rparr>)) \<and>
   fst (Next Sprintf_int64 (GroupByIter (newGroupByIter query7 [count_rows] [Inl (Errorf ''read failed'')]))) =
     Inl (Errorf ''read failed'') \<and>
   fst (Nexts Sprintf_int64 2
     (snd (Next Sprintf_int64
        (GroupByIter (newGroupByIter query7 [count_rows] [Inl (Errorf ''read failed'')]))))) =
     [Inl EOF, Inl EOF]"
proof -
  let ?it = "GroupByGroupingIter (newGroupByGroupingIter query7 [column_a, sum_b] [column_a] [])"
  let ?it1 = "GroupByGroupingIter
        ((newGroupByGroupingIter query7 [column_a, sum_b] [column_a] [])\<lparr>aggregations := Some NewHistoryCache\<rparr>)"
  let ?jt = "GroupByIter (newGroupByIter query7 [count_rows] [Inl (Errorf ''read failed'')])"
  have n: "Next Sprintf_int64 ?it = (Inl EOF, ?it1)"
    by (simp add: grouping_Next_empty)
  have nv: "iter_never_EOF ?it"
    by (simp add: newGroupByGroupingIter_def never_EOF_fixtures)
  have g: "Nexts Sprintf_int64 3 ?it1 = ([Inl EOF, Inl EOF, Inl EOF], ?it1)"
    using Next_end_is_final [OF n, of 3] nv
    by (simp add: numeral_3_eq_3 del: Nexts.simps Next.simps)
  have m: "Next Sprintf_int64 ?jt = (fst (Next Sprintf_int64 ?jt), snd (Next Sprintf_int64 ?jt))"
    by (simp del: Next.simps)
  have "Nexts Sprintf_int64 2 (snd (Next Sprintf_int64 ?jt)) =
      (replicate 2 (Inl EOF), snd (Next Sprintf_int64 ?jt))"
    using Next_end_is_final [OF m, of 2] by blast
  then have j: "fst (Nexts Sprintf_int64 2 (snd (Next Sprintf_int64 ?jt))) = [Inl EOF, Inl EOF]"
    by (simp add: numeral_2_eq_2 del: Nexts.simps Next.simps)
  have e: "fst (Next Sprintf_int64 ?jt) = Inl (Errorf ''read failed'')"
    by (simp add: groupByIter_Next_def newGroupByIter_def count_rows_def)
  from n g e j show ?thesis
    by (simp only: simp_thms)
qed

text \<open>
  The proviso on the end signal cannot be dropped. A group-by expression that reports \<open>io.EOF\<close> on
  the second row makes \<open>compute\<close> stop with that error: the first \<open>Next\<close> returns it,
  and a caller takes it for the end; the second \<open>Next\<close> emits the group of the first
  row, which the cache still holds.
\<close>

lemma key_one: "groupingKey Sprintf_int64 query7 [eof_on_two] [Some 1] = Inr 0x4320000000000000"
  by (simp add: groupingKey_def eof_on_two_def Sprintf_int64_def FormatInt_def FormatUint_Suc_0 crc_eval)

lemma key_two: "groupingKey Sprintf_int64 query7 [eof_on_two] [Some 2] = Inl EOF"
  by (simp add: groupingKey_def eof_on_two_def)

lemma upd_one: "updateBuffers query7 [[]] [column_a] [Some 1] = (None, [[Some 1]])"
  by (simp add: updateBuffers_def column_a_def)

lemma eval_one: "evalBuffers query7 [[Some 1]] [column_a] = Inr [Some 1]"
  by (simp add: evalBuffers_def column_a_def)

lemma fill_column_a: "fillBuffer column_a = []"
  by (simp add: column_a_def)

lemma memory_context: "HasAvailableMemory query7" "ctx (i\<lparr>ctx := query7\<rparr>) = query7"
  by (simp_all add: query7_def)

lemma end_from_an_expression_is_not_final:
  "fst (Nexts Sprintf_int64 3
     (GroupByGroupingIter (newGroupByGroupingIter query7 [column_a] [eof_on_two]
        [Inr [Some 1], Inr [Some 2]]))) =
   [Inl EOF, Inr [Some 1], Inl EOF]"
  by (simp add: numeral_3_eq_3 groupByGroupingIter_Next_def newGroupByGroupingIter_def
      compute_def NewHistoryCache_def key_one key_two compute_group_def cache_Get_def cache_Put_def
      fill_column_a memory_context upd_one eval_one Let_def)

lemma grouping_Next_computed_fields:
  "aggregations i = Some aggs \<Longrightarrow> groupByGroupingIter_Next S i = (r, i1) \<Longrightarrow>
     aggregations i1 = Some aggs \<and> keys i1 = keys i"
  by (auto simp add: grouping_Next_computed split: if_splits sum.splits)

text \<open>
  Claim C5, as the spec states it: when two distinct key values collide under the hash,
  a secondary equality check on the key values keeps them in separate groups. The code
  has no such check. The rows \<open>row_A\<close> = (400000000000, 400000000000) and \<open>row_B\<close> =
  (440000000700, 400410000000), grouped by both columns, have different key values and
  the same CRC-64 checksum; with the two columns and the count of rows selected, the
  iterator emits a single row, the values of \<open>row_B\<close> with the count 2, and then ends.
\<close>

theorem colliding_keys_are_merged:
  "row_A \<noteq> row_B \<and>
   groupingKey Sprintf_int64 query7 [column_a, column_b] row_A =
     groupingKey Sprintf_int64 query7 [column_a, column_b] row_B \<and>
   fst (Nexts Sprintf_int64 2
       (GroupByGroupingIter (newGroupByGroupingIter query7 [column_a, column_b, count_rows]
          [column_a, column_b] [Inr row_A, Inr row_B]))) =
   [Inr [Some 440000000700, Some 400410000000, Some 2], Inl EOF]"
proof -
  let ?k = "0xc5d44ae4ee8de1e1 :: 64 word"
  have rows: "group_rows Sprintf_int64 query7 [column_a, column_b] [row_A, row_B] ?k = [row_A, row_B]"
    by (simp add: group_rows_def key_A key_B)
  have mem: "HasAvailableMemory query7"
    by (simp add: query7_def)
  have keys: "map (groupingKey Sprintf_int64 query7 [column_a, column_b]) [row_A, row_B] = map Inr [?k, ?k]"
    by (simp add: key_A key_B)
  have ok: "\<forall>k \<in> set [?k, ?k]. \<exists>out. group_row query7 [column_a, column_b, count_rows]
      (group_rows Sprintf_int64 query7 [column_a, column_b] [row_A, row_B] k) = Inr out"
    by (simp add: rows group_AB)
  have "fst (Nexts Sprintf_int64 (Suc (length (first_appearance [?k, ?k])))
       (GroupByGroupingIter (newGroupByGroupingIter query7 [column_a, column_b, count_rows]
          [column_a, column_b] (map Inr [row_A, row_B])))) =
     map (\<lambda>k. group_row query7 [column_a, column_b, count_rows]
            (group_rows Sprintf_int64 query7 [column_a, column_b] [row_A, row_B] k))
       (first_appearance [?k, ?k]) @ [Inl EOF]"
    by (rule grouping_Nexts_new [OF mem keys ok])
  then have "fst (Nexts Sprintf_int64 2
       (GroupByGroupingIter (newGroupByGroupingIter query7 [column_a, column_b, count_rows]
          [column_a, column_b] [Inr row_A, Inr row_B]))) =
   [Inr [Some 440000000700, Some 400410000000, Some 2], Inl EOF]"
    by (simp add: rows group_AB numeral_2_eq_2 del: Nexts.simps)
  moreover have "row_A \<noteq> row_B"
    by (simp add: row_A_def row_B_def)
  ultimately show ?thesis
    by (simp only: key_A key_B simp_thms)
qed

text \<open>
  Claim C5, amended: the grouping key of a row is the CRC-64 checksum (ISO polynomial) of
  the comma-joined printed values of its group-by expressions, and after the first
  \<open>Next\<close> the cache holds, under each key, the buffers updated with exactly the input
  rows that have this key, and nothing under any other key: two rows are accumulated into
  the same group if and only if their checksums are equal, whether or not their key
  values are. The hypotheses are those of C1.
\<close>

theorem groups_are_keyed_by_checksum:
  assumes mem: "HasAvailableMemory c"
    and keys: "map (groupingKey S c grp) rows = map Inr ks"
    and ok: "\<forall>k \<in> set ks. \<exists>out. group_row c sel (group_rows S c grp rows k) = Inr out"
  shows "(\<forall>r vs. map (\<lambda>e. Eval e c r) grp = map Inr vs \<longrightarrow>
            groupingKey S c grp r = Inr (Checksum (bytes (strings_Join (map S vs) '','')) table)) \<and>
         (\<exists>i1. snd (Next S (GroupByGroupingIter (newGroupByGroupingIter c sel grp (map Inr rows)))) =
                  GroupByGroupingIter i1 \<and>
               keys i1 = first_appearance ks \<and>
               aggregations i1 =
                 Some (\<lambda>k. if k \<in> set ks
                          then Some (snd (accumulate c sel (map fillBuffer sel)
                                            (group_rows S c grp rows k)))
                          else None))"
proof
  show "\<forall>r vs. map (\<lambda>e. Eval e c r) grp = map Inr vs \<longrightarrow>
            groupingKey S c grp r = Inr (Checksum (bytes (strings_Join (map S vs) '','')) table)"
    by (simp add: groupingKey_Checksum)
next
  let ?i = "newGroupByGroupingIter c sel grp (map Inr rows)"
  let ?aggs = "\<lambda>k. if k \<in> set ks
                          then Some (snd (accumulate c sel (map fillBuffer sel)
                                            (group_rows S c grp rows k)))
                          else None"
  let ?i1 = "?i\<lparr>child := [], aggregations := Some ?aggs, keys := first_appearance ks\<rparr>"
  have cmp: "compute S (?i\<lparr>aggregations := Some NewHistoryCache\<rparr>) = (None, ?i1)"
    by (rule compute_new [OF mem keys ok])
  have "aggregations ?i = None" by (simp add: newGroupByGroupingIter_def)
  then have same: "groupByGroupingIter_Next S ?i = groupByGroupingIter_Next S ?i1"
    using cmp by (rule grouping_Next_first)
  obtain r i2 where n: "groupByGroupingIter_Next S ?i1 = (r, i2)"
    by (cases "groupByGroupingIter_Next S ?i1") auto
  have a: "aggregations ?i1 = Some ?aggs" by simp
  have "aggregations i2 = Some ?aggs \<and> keys i2 = keys ?i1"
    using a n by (rule grouping_Next_computed_fields)
  then have "snd (Next S (GroupByGroupingIter ?i)) = GroupByGroupingIter i2 \<and>
      keys i2 = first_appearance ks \<and> aggregations i2 = Some ?aggs"
    using same n by simp
  then show "\<exists>i1. snd (Next S (GroupByGroupingIter ?i)) = GroupByGroupingIter i1 \<and>
               keys i1 = first_appearance ks \<and> aggregations i1 = Some ?aggs"
    by blast
qed

lemma buffers_AB:
  "snd (accumulate query7 [column_a, column_b, count_rows]
          (map fillBuffer [column_a, column_b, count_rows]) [row_A, row_B]) =
     [[Some 440000000700], [Some 400410000000], [Some 2]]"
  by (simp add: row_A_def row_B_def run_eval)

lemma printed_A:
  "strings_Join (map Sprintf_int64 [Some 400000000000, Some 400000000000]) '','' =
     ''400000000000,400000000000''"
  by (simp add: Sprintf_int64_def FormatInt_def FormatUint_numeral digit_char_def)

theorem groups_are_keyed_by_checksum_witness:
  "groupingKey Sprintf_int64 query7 [column_a, column_b] row_A =
     Inr (Checksum (bytes ''400000000000,400000000000'') table) \<and>
   (\<exists>i1 aggs.
      snd (Next Sprintf_int64
             (GroupByGroupingIter (newGroupByGroupingIter query7 [column_a, column_b, count_rows]
                [column_a, column_b] [Inr row_A, Inr row_B]))) = GroupByGroupingIter i1 \<and>
      keys i1 = [0xc5d44ae4ee8de1e1] \<and> aggregations i1 = Some aggs \<and>
      aggs 0xc5d44ae4ee8de1e1 = Some [[Some 440000000700], [Some 400410000000], [Some 2]])"
proof -
  let ?k = "0xc5d44ae4ee8de1e1 :: 64 word"
  let ?sel = "[column_a, column_b, count_rows]"
  let ?grp = "[column_a, column_b]"
  have rows: "group_rows Sprintf_int64 query7 ?grp [row_A, row_B] ?k = [row_A, row_B]"
    by (simp add: group_rows_def key_A key_B)
  have mem: "HasAvailableMemory query7"
    by (simp add: query7_def)
  have keys: "map (groupingKey Sprintf_int64 query7 ?grp) [row_A, row_B] = map Inr [?k, ?k]"
    by (simp add: key_A key_B)
  have ok: "\<forall>k \<in> set [?k, ?k]. \<exists>out. group_row query7 ?sel
      (group_rows Sprintf_int64 query7 ?grp [row_A, row_B] k) = Inr out"
    by (simp add: rows group_AB)
  have vals: "map (\<lambda>e. Eval e query7 row_A) ?grp = map Inr [Some 400000000000, Some 400000000000]"
    by (simp add: row_A_def column_a_def column_b_def)
  note inst = groups_are_keyed_by_checksum [where S = Sprintf_int64 and c = query7 and grp = ?grp and sel = ?sel
      and rows = "[row_A, row_B]" and ks = "[?k, ?k]", OF mem keys ok]
  from inst vals have "groupingKey Sprintf_int64 query7 ?grp row_A =
      Inr (Checksum (bytes (strings_Join (map Sprintf_int64 [Some 400000000000, Some 400000000000]) '','')) table)"
    by blast
  then have key: "groupingKey Sprintf_int64 query7 ?grp row_A =
      Inr (Checksum (bytes ''400000000000,400000000000'') table)"
    by (simp only: printed_A)
  from inst obtain i1 where i1: "snd (Next Sprintf_int64
             (GroupByGroupingIter (newGroupByGroupingIter query7 ?sel ?grp (map Inr [row_A, row_B])))) =
          GroupByGroupingIter i1"
    and k1: "keys i1 = first_appearance [?k, ?k]"
    and a1: "aggregations i1 =
        Some (\<lambda>k. if k \<in> set [?k, ?k]
                 then Some (snd (accumulate query7 ?sel (map fillBuffer ?sel)
                                  (group_rows Sprintf_int64 query7 ?grp [row_A, row_B] k)))
                 else None)"
    by blast
  have "keys i1 = [?k]" using k1 by simp
  moreover have "(\<lambda>k. if k \<in> set [?k, ?k]
                 then Some (snd (accumulate query7 ?sel (map fillBuffer ?sel)
                                  (group_rows Sprintf_int64 query7 ?grp [row_A, row_B] k)))
                 else None) ?k = Some [[Some 440000000700], [Some 400410000000], [Some 2]]"
    using buffers_AB by (simp add: rows)
  ultimately show ?thesis
    using key i1 a1 by (simp del: Next.simps) 
qed

end
